theory Spec2Isabelle
  imports Complex_Main "HOL-Library.AList" "HOL-Library.Multiset" "HOL-Library.Code_Target_Nat" "HOL-Library.Char_ord" "HOL-Library.List_Lexorder"
begin

section \<open>The JavaScript values that ReportsService computes with\<close>

subsection \<open>Numbers\<close>

text \<open>
  A JavaScript number is NaN, an infinity or a finite binary64 number. A finite number
  is kept as the rational that it denotes, with one zero for the two of binary64
  (neither truthiness, nor addition to a number that is not zero, nor \<open>toFixed\<close> tells
  them apart). The result of every operation is rounded to the nearest binary64
  number, a tie to the one with an even significand, and is infinite from
  \<open>2^1024 - 2^970\<close> on.
\<close>

datatype jsnum = NaN | Fin rat | PInf | NInf

text \<open>
  The number of binary digits of a positive integer, and powers of two by repeated
  squaring (1 for an exponent that is not positive). The flags of \<open>bits_from\<close> and
  \<open>power_from\<close> say whether the argument is used up, and whether it is odd.
\<close>

function bits_from :: "bool \<Rightarrow> int \<Rightarrow> int" where
  "bits_from True n = 0"
| "bits_from False n = 1 + bits_from (n div 2 \<le> 0) (n div 2)"
  by pat_completeness auto
termination
  by (relation "measure (\<lambda>(b, n). if b then 0 else Suc (nat n))") auto

definition bit_length :: "int \<Rightarrow> int" where
  "bit_length n = bits_from (n \<le> 0) n"

function power_from :: "bool \<Rightarrow> bool \<Rightarrow> int \<Rightarrow> int \<Rightarrow> nat \<Rightarrow> int" where
  "power_from True b y x n = y"
| "power_from False True y x n =
     power_from (n div 2 = 0) (odd (n div 2)) (x * y) (x * x) (n div 2)"
| "power_from False False y x n =
     power_from (n div 2 = 0) (odd (n div 2)) y (x * x) (n div 2)"
  by pat_completeness auto
termination
  by (relation "measure (\<lambda>(b, d, y, x, n). if b then 0 else Suc n)") auto

definition pow2 :: "int \<Rightarrow> int" where
  "pow2 k = power_from (k \<le> 0) (odd k) 1 2 (nat k)"

text \<open>
  The exponent \<open>e\<close> of a positive rational \<open>p / q\<close>: \<open>2^e \<le> p / q < 2^(e + 1)\<close>. The
  difference of the bit lengths is \<open>e\<close> or \<open>e + 1\<close>.
\<close>

definition floor_log2 :: "int \<Rightarrow> int \<Rightarrow> int" where
  "floor_log2 p q =
     (let d = bit_length p - bit_length q
      in if q * pow2 d \<le> p * pow2 (- d) then d else d - 1)"

text \<open>
  The nearest binary64 number. With \<open>e\<close> the exponent of \<open>\<bar>x\<bar>\<close>, or -1022 when that is
  larger (the subnormal range), the binary64 numbers around \<open>\<bar>x\<bar>\<close> are the multiples of
  \<open>2^k\<close> for \<open>k = e - 52\<close>; \<open>n / d\<close> is \<open>\<bar>x\<bar> / 2^k\<close>, and \<open>m\<close> is the integer nearest to it,
  the even one of two. The result is infinite when \<open>m * 2^k\<close> reaches \<open>2^1024\<close>.
\<close>

definition round64 :: "rat \<Rightarrow> jsnum" where
  "round64 x =
     (let p = \<bar>fst (quotient_of x)\<bar>;
          q = snd (quotient_of x);
          e = floor_log2 p q;
          k = max e (- 1022) - 52;
          n = p * pow2 (- k);
          d = q * pow2 k;
          f = n div d;
          r = n mod d;
          m = (if 2 * r < d then f else if d < 2 * r then f + 1
               else if even f then f else f + 1);
          v = Fract (m * pow2 k) (pow2 (- k))
      in if 1024 \<le> e \<or> (e = 1023 \<and> m = 9007199254740992)
         then (if 0 < x then PInf else NInf)
         else Fin (if x < 0 then - v else v))"

fun jsadd :: "jsnum \<Rightarrow> jsnum \<Rightarrow> jsnum" where
  "jsadd NaN y = NaN"
| "jsadd x NaN = NaN"
| "jsadd PInf NInf = NaN"
| "jsadd NInf PInf = NaN"
| "jsadd PInf y = PInf"
| "jsadd x PInf = PInf"
| "jsadd NInf y = NInf"
| "jsadd x NInf = NInf"
| "jsadd (Fin a) (Fin b) = round64 (a + b)"

fun jsneg :: "jsnum \<Rightarrow> jsnum" where
  "jsneg NaN = NaN"
| "jsneg PInf = NInf"
| "jsneg NInf = PInf"
| "jsneg (Fin a) = Fin (- a)"

definition jssub :: "jsnum \<Rightarrow> jsnum \<Rightarrow> jsnum" where
  "jssub x y = jsadd x (jsneg y)"

text \<open>\<open>!x\<close> for a number \<open>x\<close>: true for NaN and for zero.\<close>

definition falsy :: "jsnum \<Rightarrow> bool" where
  "falsy x = (x = NaN \<or> x = Fin 0)"

subsection \<open>Strings of digits\<close>

definition is_digit :: "char \<Rightarrow> bool" where
  "is_digit c = (c \<in> set ''0123456789'')"

definition digit_val :: "char \<Rightarrow> nat" where
  "digit_val c = of_char c - 48"

definition digit_char :: "nat \<Rightarrow> char" where
  "digit_char d = char_of (48 + d)"

definition nat_of_digits :: "string \<Rightarrow> nat" where
  "nat_of_digits ds = foldl (\<lambda>n c. 10 * n + digit_val c) 0 ds"

text \<open>
  The decimal digits of a natural number, most significant first. The flag of
  \<open>digits_from\<close> says whether its argument is a single digit.
\<close>

function digits_from :: "bool \<Rightarrow> nat \<Rightarrow> string" where
  "digits_from True n = [digit_char n]"
| "digits_from False n = digits_from (n div 10 < 10) (n div 10) @ [digit_char (n mod 10)]"
  by pat_completeness auto
termination
  by (relation "measure (\<lambda>(b, n). if b then 0 else Suc n)") auto

definition digits :: "nat \<Rightarrow> string" where
  "digits n = digits_from (n < 10) n"

text \<open>\<open>String(i)\<close> for an integer \<open>i\<close> of moderate size (no exponent notation).\<close>

definition show_int :: "int \<Rightarrow> string" where
  "show_int i = (if i < 0 then ''-'' @ digits (nat (- i)) else digits (nat i))"

subsection \<open>What the runtime and its environment decide\<close>

text \<open>
  Three things are fixed by the JavaScript engine and the process environment rather
  than by the program, and are parameters of the model:
  the offset of local time from UTC (in milliseconds, as a function of the UTC time
  value), the result of \<open>Date.parse\<close> on a string that is not a calendar date
  \<open>YYYY-MM-DD\<close> (a time value, or \<open>None\<close> for NaN), and the exponent notation that
  \<open>toFixed\<close> falls back to for magnitudes of at least \<open>10^21\<close>.
\<close>

record env =
  localTZA :: "int \<Rightarrow> int"
  parse_other_date :: "string \<Rightarrow> int option"
  toString_large :: "rat \<Rightarrow> string"

subsection \<open>\<open>Number.prototype.toFixed(2)\<close>\<close>

definition toFixed2 :: "env \<Rightarrow> jsnum \<Rightarrow> string" where
  "toFixed2 e x =
     (case x of
        NaN \<Rightarrow> ''NaN''
      | PInf \<Rightarrow> ''Infinity''
      | NInf \<Rightarrow> ''-Infinity''
      | Fin r \<Rightarrow>
          (let s = (if r < 0 then ''-'' else '''');
               a = \<bar>r\<bar>
           in if 10 ^ 21 \<le> a then s @ toString_large e a
              else
                (let n = nat \<lfloor>a * 100 + 1 / 2\<rfloor>;
                     m = digits n;
                     m' = (if length m \<le> 2 then replicate (3 - length m) CHR ''0'' @ m else m);
                     k = length m'
                 in s @ take (k - 2) m' @ ''.'' @ drop (k - 2) m')))"

subsection \<open>\<open>parseFloat\<close>\<close>

text \<open>
  White space and line terminators among the characters below 256: tab, line feed,
  vertical tab, form feed, carriage return, space and no-break space. Both
  \<open>String.prototype.trim\<close> and \<open>parseFloat\<close> strip exactly these.
\<close>

definition is_ws :: "char \<Rightarrow> bool" where
  "is_ws c = (of_char c \<in> set [9, 10, 11, 12, 13, 32, 160 :: nat])"

definition exponent_part :: "string \<Rightarrow> int" where
  "exponent_part r =
     (if r \<noteq> [] \<and> (hd r = CHR ''e'' \<or> hd r = CHR ''E'') then
        (let s = tl r;
             neg = (s \<noteq> [] \<and> hd s = CHR ''-'');
             u = (if s \<noteq> [] \<and> (hd s = CHR ''-'' \<or> hd s = CHR ''+'') then tl s else s);
             ds = takeWhile is_digit u
         in if ds = [] then 0
            else if neg then - int (nat_of_digits ds) else int (nat_of_digits ds))
      else 0)"

text \<open>
  \<open>parseFloat\<close> skips leading white space and reads the longest prefix that is a
  decimal literal (sign, digits, fraction, exponent, or \<open>Infinity\<close>); with no such
  prefix the result is NaN. The result is the binary64 number nearest to the value of
  the literal.
\<close>

definition parseFloat :: "string \<Rightarrow> jsnum" where
  "parseFloat s =
     (let t = dropWhile is_ws s;
          neg = (t \<noteq> [] \<and> hd t = CHR ''-'');
          u = (if t \<noteq> [] \<and> (hd t = CHR ''-'' \<or> hd t = CHR ''+'') then tl t else t)
      in if take 8 u = ''Infinity'' then (if neg then NInf else PInf)
         else
           (let ip = takeWhile is_digit u;
                r = dropWhile is_digit u;
                dot = (r \<noteq> [] \<and> hd r = CHR ''.'');
                fp = (if dot then takeWhile is_digit (tl r) else []);
                r2 = (if dot then dropWhile is_digit (tl r) else r)
            in if ip = [] \<and> fp = [] then NaN
               else
                 (let m = of_nat (nat_of_digits ip) + of_nat (nat_of_digits fp) / 10 ^ length fp;
                      v = m * 10 powi exponent_part r2
                  in round64 (if neg then - v else v))))"

section \<open>Record Parser and Ledger Cache\<close>

subsection \<open>Splitting a file into rows of fields\<close>

definition trim :: "string \<Rightarrow> string" where
  "trim s = rev (dropWhile is_ws (rev (dropWhile is_ws s)))"

text \<open>\<open>s.split(c)\<close> for a separator of one character: never the empty list.\<close>

primrec split_on :: "char \<Rightarrow> string \<Rightarrow> string list" where
  "split_on c [] = [[]]"
| "split_on c (x # xs) =
     (let r = split_on c xs in if x = c then [] # r else (x # hd r) # tl r)"

text \<open>\<open>content.trim().split('\n').map((line) => line.split(','))\<close> of \<open>loadFiles\<close>.\<close>

definition parse_lines :: "string \<Rightarrow> string list list" where
  "parse_lines content = map (split_on CHR '','') (split_on CHR 0x0A (trim content))"

subsection \<open>Objects used as dictionaries\<close>

text \<open>
  A plain object is the list of its own properties in the order of their creation.
  \<open>AList.update\<close> is assignment: it overwrites the value of an existing key where it
  stands and puts a new key last. Enumeration (\<open>Object.keys\<close>, \<open>Object.values\<close>,
  \<open>Object.entries\<close>, \<open>for ... of\<close> over them) visits the keys that are array indices
  first, in ascending numeric order, and then the other keys in the order of creation.
\<close>

type_synonym 'v jsobj = "(string \<times> 'v) list"

definition is_array_index :: "string \<Rightarrow> bool" where
  "is_array_index k =
     (k \<noteq> [] \<and> list_all is_digit k \<and> (hd k \<noteq> CHR ''0'' \<or> length k = 1)
      \<and> nat_of_digits k < 4294967295)"

definition entries :: "'v jsobj \<Rightarrow> (string \<times> 'v) list" where
  "entries obj =
     sort_key (\<lambda>p. nat_of_digits (fst p)) (filter (\<lambda>p. is_array_index (fst p)) obj)
     @ filter (\<lambda>p. \<not> is_array_index (fst p)) obj"

text \<open>
  What \<open>obj[k]\<close> can evaluate to in \<open>accounts\<close> and \<open>yearly\<close>: \<open>undefined\<close>, a number, a
  member inherited from \<open>Object.prototype\<close> (a function, or the prototype itself for
  \<open>__proto__\<close>), or the string that \<open>+=\<close> makes of such a member and a number.
\<close>

datatype jsval = Undefined | Number jsnum | Inherited | Text

definition object_prototype_keys :: "string list" where
  "object_prototype_keys =
     [''constructor'', ''__defineGetter__'', ''__defineSetter__'', ''hasOwnProperty'',
      ''__lookupGetter__'', ''__lookupSetter__'', ''isPrototypeOf'', ''propertyIsEnumerable'',
      ''toString'', ''valueOf'', ''__proto__'', ''toLocaleString'']"

definition get_prop :: "jsval jsobj \<Rightarrow> string \<Rightarrow> jsval" where
  "get_prop obj k =
     (case map_of obj k of
        Some v \<Rightarrow> v
      | None \<Rightarrow> if k \<in> set object_prototype_keys then Inherited else Undefined)"

text \<open>
  \<open>obj[k] = v\<close> for a number or string \<open>v\<close>: the setter of \<open>__proto__\<close> ignores such a
  value, every other key becomes (or stays) an own property.
\<close>

definition set_prop :: "jsval jsobj \<Rightarrow> string \<Rightarrow> jsval \<Rightarrow> jsval jsobj" where
  "set_prop obj k v = (if k = ''__proto__'' then obj else AList.update k v obj)"

fun truthy :: "jsval \<Rightarrow> bool" where
  "truthy Undefined = False"
| "truthy (Number n) = (\<not> falsy n)"
| "truthy Inherited = True"
| "truthy Text = True"

text \<open>\<open>v + amount\<close> for a number \<open>amount\<close>.\<close>

fun js_plus :: "jsval \<Rightarrow> jsnum \<Rightarrow> jsval" where
  "js_plus Undefined amount = Number NaN"
| "js_plus (Number n) amount = Number (jsadd n amount)"
| "js_plus Inherited amount = Text"
| "js_plus Text amount = Text"

subsection \<open>The fields of a ledger row\<close>

text \<open>\<open>line[i]\<close>: \<open>None\<close> is \<open>undefined\<close>.\<close>

definition field :: "string list \<Rightarrow> nat \<Rightarrow> string option" where
  "field line i = (if i < length line then Some (line ! i) else None)"

text \<open>A field used as a property key: \<open>undefined\<close> becomes the string \<open>undefined\<close>.\<close>

definition prop_key :: "string option \<Rightarrow> string" where
  "prop_key f = (case f of None \<Rightarrow> ''undefined'' | Some s \<Rightarrow> s)"

text \<open>\<open>f || '0'\<close>.\<close>

definition or_zero :: "string option \<Rightarrow> string" where
  "or_zero f = (case f of None \<Rightarrow> ''0'' | Some s \<Rightarrow> if s = [] then ''0'' else s)"

text \<open>\<open>parseFloat(debit || '0') - parseFloat(credit || '0')\<close>.\<close>

definition row_amount :: "string list \<Rightarrow> jsnum" where
  "row_amount line =
     jssub (parseFloat (or_zero (field line 3))) (parseFloat (or_zero (field line 4)))"

section \<open>Account Balances job\<close>

text \<open>
  The two statements of the loops of \<open>accounts\<close> and \<open>yearly\<close>:
  \<open>if (!obj[k]) { obj[k] = 0; }  obj[k] += amount;\<close>
\<close>

definition accumulate :: "jsval jsobj \<Rightarrow> string \<Rightarrow> jsnum \<Rightarrow> jsval jsobj" where
  "accumulate obj k amount =
     (let obj1 = (if \<not> truthy (get_prop obj k) then set_prop obj k (Number (Fin 0)) else obj)
      in set_prop obj1 k (js_plus (get_prop obj1 k) amount))"

definition accounts_row :: "jsval jsobj \<Rightarrow> string list \<Rightarrow> jsval jsobj" where
  "accounts_row accountBalances line =
     accumulate accountBalances (prop_key (field line 1)) (row_amount line)"

text \<open>The rows in the order in which a job's two nested loops visit them.\<close>

definition rows_of :: "string list list jsobj \<Rightarrow> string list list" where
  "rows_of parsedFiles = concat (map snd (entries parsedFiles))"

definition accountBalances :: "string list list jsobj \<Rightarrow> jsval jsobj" where
  "accountBalances parsedFiles = foldl accounts_row [] (rows_of parsedFiles)"

datatype error = TypeError

text \<open>
  One output line per entry; \<open>balance.toFixed\<close> is not a function when the balance is
  not a number, and the call throws.
\<close>

fun balance_lines :: "env \<Rightarrow> (string \<times> jsval) list \<Rightarrow> string list \<Rightarrow> error + string list" where
  "balance_lines e [] output = Inr output"
| "balance_lines e ((k, Number n) # rest) output =
     balance_lines e rest (output @ [k @ '','' @ toFixed2 e n])"
| "balance_lines e ((k, v) # rest) output = Inl TypeError"

text \<open>\<open>output.join('\n')\<close>.\<close>

fun join_lines :: "string list \<Rightarrow> string" where
  "join_lines [] = []"
| "join_lines [l] = l"
| "join_lines (l # ls) = l @ [CHR 0x0A] @ join_lines ls"

text \<open>The text that \<open>accounts\<close> writes to \<open>out/accounts.csv\<close>, or the error that ends the job.\<close>

definition accounts_text :: "env \<Rightarrow> string list list jsobj \<Rightarrow> error + string" where
  "accounts_text e parsedFiles =
     (case balance_lines e (entries (accountBalances parsedFiles)) [''Account,Balance''] of
        Inl err \<Rightarrow> Inl err
      | Inr output \<Rightarrow> Inr (join_lines output))"

section \<open>Dates: \<open>new Date(date).getFullYear()\<close>\<close>

text \<open>
  Day numbers count from 1970-01-01 in the proleptic Gregorian calendar, as ECMAScript
  defines them; \<open>div\<close> on integers rounds down, as \<open>floor\<close> does.
\<close>

definition DayFromYear :: "int \<Rightarrow> int" where
  "DayFromYear y =
     365 * (y - 1970) + (y - 1969) div 4 - (y - 1901) div 100 + (y - 1601) div 400"

definition is_leap_year :: "int \<Rightarrow> bool" where
  "is_leap_year y = (y mod 4 = 0 \<and> (y mod 100 \<noteq> 0 \<or> y mod 400 = 0))"

definition days_in_month :: "int \<Rightarrow> nat \<Rightarrow> int" where
  "days_in_month y m =
     (if m = 2 then (if is_leap_year y then 29 else 28)
      else if m \<in> set [4, 6, 9, 11] then 30 else 31)"

text \<open>The day number of day \<open>d\<close> of month \<open>m\<close> (1 to 12) of year \<open>y\<close>.\<close>

definition MakeDay :: "int \<Rightarrow> nat \<Rightarrow> int \<Rightarrow> int" where
  "MakeDay y m d = DayFromYear y + sum_list (map (days_in_month y) [1..<m]) + (d - 1)"

text \<open>
  The year that holds a day number: the largest \<open>y\<close> with \<open>DayFromYear y \<le> day\<close>. The
  mean length of a year puts it within one year of the estimate.
\<close>

definition YearFromDay :: "int \<Rightarrow> int" where
  "YearFromDay day =
     (let y = 1970 + (day * 400) div 146097
      in if DayFromYear (y + 1) \<le> day then y + 1
         else if DayFromYear y \<le> day then y
         else y - 1)"

definition msPerDay :: int where
  "msPerDay = 86400000"

text \<open>
  A calendar date \<open>YYYY-MM-DD\<close> with a month from 01 to 12 and a day that the month
  has: the date-only form, read as midnight UTC. Every other string (other formats,
  and days that the month does not have, on which engines differ) is left to
  \<open>parse_other_date\<close>.
\<close>

definition iso_date :: "string \<Rightarrow> int option" where
  "iso_date s =
     (if length s = 10 \<and> list_all is_digit (take 4 s) \<and> s ! 4 = CHR ''-''
         \<and> list_all is_digit (take 2 (drop 5 s)) \<and> s ! 7 = CHR ''-''
         \<and> list_all is_digit (drop 8 s)
      then
        (let y = int (nat_of_digits (take 4 s));
             m = nat_of_digits (take 2 (drop 5 s));
             d = int (nat_of_digits (drop 8 s))
         in if 1 \<le> m \<and> m \<le> 12 \<and> 1 \<le> d \<and> d \<le> days_in_month y m
            then Some (MakeDay y m d * msPerDay) else None)
      else None)"

definition Date_parse :: "env \<Rightarrow> string \<Rightarrow> int option" where
  "Date_parse e s = (case iso_date s of Some t \<Rightarrow> Some t | None \<Rightarrow> parse_other_date e s)"

text \<open>
  \<open>new Date(s).getFullYear()\<close>: the year of the local time of the parsed instant;
  \<open>None\<close> is NaN (the string does not parse, or the instant is out of the range of
  \<open>Date\<close>).
\<close>

definition getFullYear :: "env \<Rightarrow> string \<Rightarrow> int option" where
  "getFullYear e s =
     (case Date_parse e s of
        None \<Rightarrow> None
      | Some t \<Rightarrow>
          if \<bar>t\<bar> \<le> 8640000000000000
          then Some (YearFromDay ((t + localTZA e t) div msPerDay))
          else None)"

text \<open>The year as the property key \<open>cashByYear[year]\<close>.\<close>

definition year_key :: "env \<Rightarrow> string option \<Rightarrow> string" where
  "year_key e date =
     (case date of
        None \<Rightarrow> ''NaN''
      | Some s \<Rightarrow> (case getFullYear e s of None \<Rightarrow> ''NaN'' | Some y \<Rightarrow> show_int y))"

section \<open>Yearly Cash Flow job\<close>

definition yearly_row :: "env \<Rightarrow> jsval jsobj \<Rightarrow> string list \<Rightarrow> jsval jsobj" where
  "yearly_row e cashByYear line =
     (if field line 1 = Some ''Cash''
      then accumulate cashByYear (year_key e (field line 0)) (row_amount line)
      else cashByYear)"

text \<open>The rows of every cached file but \<open>yearly.csv\<close>, in the order of the loops.\<close>

definition yearly_rows :: "string list list jsobj \<Rightarrow> string list list" where
  "yearly_rows parsedFiles =
     concat (map snd (filter (\<lambda>p. fst p \<noteq> ''yearly.csv'') (entries parsedFiles)))"

definition cashByYear :: "env \<Rightarrow> string list list jsobj \<Rightarrow> jsval jsobj" where
  "cashByYear e parsedFiles = foldl (yearly_row e) [] (yearly_rows parsedFiles)"

text \<open>
  \<open>Object.keys(cashByYear).sort().forEach(...)\<close>: \<open>sort\<close> without a comparison function
  orders strings by their code units, which is the lexicographic order of \<open>string\<close>.
\<close>

fun year_lines :: "env \<Rightarrow> jsval jsobj \<Rightarrow> string list \<Rightarrow> string list \<Rightarrow> error + string list" where
  "year_lines e obj [] output = Inr output"
| "year_lines e obj (year # rest) output =
     (case get_prop obj year of
        Number n \<Rightarrow> year_lines e obj rest (output @ [year @ '','' @ toFixed2 e n])
      | _ \<Rightarrow> Inl TypeError)"

text \<open>The text that \<open>yearly\<close> writes to \<open>out/yearly.csv\<close>.\<close>

definition yearly_text :: "env \<Rightarrow> string list list jsobj \<Rightarrow> error + string" where
  "yearly_text e parsedFiles =
     (let obj = cashByYear e parsedFiles
      in case year_lines e obj (sort (map fst (entries obj))) [''Financial Year,Cash Balance''] of
           Inl err \<Rightarrow> Inl err
         | Inr output \<Rightarrow> Inr (join_lines output))"

section \<open>Financial Statement job\<close>

definition revenues :: "string list" where
  "revenues = [''Sales Revenue'']"

definition expenses :: "string list" where
  "expenses =
     [''Cost of Goods Sold'', ''Salaries Expense'', ''Rent Expense'', ''Utilities Expense'',
      ''Interest Expense'', ''Tax Expense'']"

definition assets :: "string list" where
  "assets =
     [''Cash'', ''Accounts Receivable'', ''Inventory'', ''Fixed Assets'', ''Prepaid Expenses'']"

definition liabilities :: "string list" where
  "liabilities =
     [''Accounts Payable'', ''Loan Payable'', ''Sales Tax Payable'', ''Accrued Liabilities'',
      ''Unearned Revenue'', ''Dividends Payable'']"

definition equity :: "string list" where
  "equity = [''Common Stock'', ''Retained Earnings'']"

text \<open>The groups of \<open>categories\<close>, section by section, in the order of the three loops.\<close>

definition categories :: "string list list" where
  "categories = [revenues, expenses, assets, liabilities, equity]"

text \<open>
  The balances of \<open>fs\<close> hold numbers only, under the names of \<open>categories\<close>: the loop
  over the rows adds to own properties only (\<open>Object.hasOwn\<close>).
\<close>

definition seed_balances :: "jsnum jsobj" where
  "seed_balances = foldl (\<lambda>balances account. AList.update account (Fin 0) balances) [] (concat categories)"

definition fs_row :: "jsnum jsobj \<Rightarrow> string list \<Rightarrow> jsnum jsobj" where
  "fs_row balances line =
     (let account = prop_key (field line 1)
      in case map_of balances account of
           Some b \<Rightarrow> AList.update account (jsadd b (row_amount line)) balances
         | None \<Rightarrow> balances)"

definition fs_rows :: "string list list jsobj \<Rightarrow> string list list" where
  "fs_rows parsedFiles =
     concat (map snd (filter (\<lambda>p. fst p \<noteq> ''fs.csv'') (entries parsedFiles)))"

definition fs_balances :: "string list list jsobj \<Rightarrow> jsnum jsobj" where
  "fs_balances parsedFiles = foldl fs_row seed_balances (fs_rows parsedFiles)"

text \<open>\<open>balances[account] || 0\<close>.\<close>

definition shown :: "jsnum jsobj \<Rightarrow> string \<Rightarrow> jsnum" where
  "shown balances account =
     (case map_of balances account of
        Some b \<Rightarrow> if falsy b then Fin 0 else b
      | None \<Rightarrow> Fin 0)"

text \<open>
  One of the five loops over a group: a line per account, and the group's total. The
  state of the loop is the output so far and the total so far.
\<close>

definition group_lines ::
  "env \<Rightarrow> jsnum jsobj \<Rightarrow> string list \<Rightarrow> string list \<times> jsnum \<Rightarrow> string list \<times> jsnum" where
  "group_lines e balances names start =
     foldl (\<lambda>(output, total) account.
              (output @ [account @ '','' @ toFixed2 e (shown balances account)],
               jsadd total (shown balances account)))
       start names"

definition fs_output :: "env \<Rightarrow> jsnum jsobj \<Rightarrow> string list" where
  "fs_output e balances =
     (let output0 = [''Basic Financial Statement'', '''', ''Income Statement''];
          (output1, totalRevenue) = group_lines e balances revenues (output0, Fin 0);
          (output2, totalExpenses) = group_lines e balances expenses (output1, Fin 0);
          output3 = output2 @
            [''Net Income,'' @ toFixed2 e (jssub totalRevenue totalExpenses), '''', ''Balance Sheet''];
          output4 = output3 @ [''Assets''];
          (output5, totalAssets) = group_lines e balances assets (output4, Fin 0);
          output6 = output5 @ [''Total Assets,'' @ toFixed2 e totalAssets, '''', ''Liabilities''];
          (output7, totalLiabilities) = group_lines e balances liabilities (output6, Fin 0);
          output8 = output7 @
            [''Total Liabilities,'' @ toFixed2 e totalLiabilities, '''', ''Equity''];
          (output9, totalEquity0) = group_lines e balances equity (output8, Fin 0);
          output10 = output9 @
            [''Retained Earnings (Net Income),'' @ toFixed2 e (jssub totalRevenue totalExpenses)];
          totalEquity = jsadd totalEquity0 (jssub totalRevenue totalExpenses);
          output11 = output10 @ [''Total Equity,'' @ toFixed2 e totalEquity, '''']
      in output11 @
           [''Assets = Liabilities + Equity, '' @ toFixed2 e totalAssets @ '' = ''
              @ toFixed2 e (jsadd totalLiabilities totalEquity)])"

text \<open>The text that \<open>fs\<close> writes to \<open>out/fs.csv\<close>.\<close>

definition fs_text :: "env \<Rightarrow> string list list jsobj \<Rightarrow> string" where
  "fs_text e parsedFiles = join_lines (fs_output e (fs_balances parsedFiles))"

section \<open>File Loader\<close>

definition endsWith :: "string \<Rightarrow> string \<Rightarrow> bool" where
  "endsWith s suffix =
     (length suffix \<le> length s \<and> drop (length s - length suffix) s = suffix)"

text \<open>
  The directory \<open>tmp\<close> is the list of its entries as \<open>readdir\<close> returns them, each a
  name with the text of the file (the entries are readable files: a read that fails
  aborts the run, and is not modelled). \<open>loadFiles\<close> reads the files whose names end
  in \<open>.csv\<close> concurrently, and each read stores its rows when it completes: the
  parameter \<open>order\<close> lists the positions of these files in the order in which their
  reads complete.
\<close>

definition eligible :: "(string \<times> string) list \<Rightarrow> (string \<times> string) list" where
  "eligible dir = filter (\<lambda>p. endsWith (fst p) ''.csv'') dir"

definition loadFiles :: "(string \<times> string) list \<Rightarrow> nat list \<Rightarrow> string list list jsobj" where
  "loadFiles dir order =
     foldl (\<lambda>parsedFiles i.
              if i < length (eligible dir)
              then AList.update (fst (eligible dir ! i)) (parse_lines (snd (eligible dir ! i)))
                     parsedFiles
              else parsedFiles)
       [] order"

text \<open>Every eligible file is read, and its read completes once.\<close>

definition completion_order :: "(string \<times> string) list \<Rightarrow> nat list \<Rightarrow> bool" where
  "completion_order dir order = (sort order = [0..<length (eligible dir)])"

section \<open>The service, its jobs and the orchestrator\<close>

record states =
  accounts_status :: string
  yearly_status :: string
  fs_status :: string

text \<open>
  The state of the service instance (\<open>states\<close>, \<open>parsedFiles\<close>) and of the two
  directories it works on: \<open>tmp\<close>, which it reads, and \<open>out\<close>, the files of which are
  kept by name.
\<close>

record world =
  states :: states
  parsedFiles :: "string list list jsobj"
  tmp :: "(string \<times> string) list"
  out :: "string jsobj"

definition idle :: states where
  "idle = \<lparr>accounts_status = ''idle'', yearly_status = ''idle'', fs_status = ''idle''\<rparr>"

text \<open>The object \<open>this.states\<close>: its three own properties, in the order of the literal.\<close>

definition states_object :: "states \<Rightarrow> string jsobj" where
  "states_object s =
     [(''accounts'', accounts_status s), (''yearly'', yearly_status s), (''fs'', fs_status s)]"

text \<open>\<open>keyof typeof this.states\<close>, and the string that each of its members is.\<close>

datatype scope = Accounts | Yearly | Fs

fun scope_name :: "scope \<Rightarrow> string" where
  "scope_name Accounts = ''accounts''"
| "scope_name Yearly = ''yearly''"
| "scope_name Fs = ''fs''"

text \<open>
  \<open>state(scope)\<close> as it runs, where types are erased and \<open>scope\<close> is any string:
  \<open>this.states[scope]\<close> is an own property of \<open>states\<close>, a member inherited from
  \<open>Object.prototype\<close>, or \<open>undefined\<close>. The call returns in every case. It is a method
  of the service: its result is the value returned and the service after the call.
\<close>

datatype looked_up = Status string | Prototype_member | Not_found

definition state_untyped :: "world \<Rightarrow> string \<Rightarrow> looked_up \<times> world" where
  "state_untyped w name =
     ((case map_of (states_object (states w)) name of
         Some status \<Rightarrow> Status status
       | None \<Rightarrow> if name \<in> set object_prototype_keys then Prototype_member else Not_found),
      w)"

text \<open>\<open>state(scope)\<close>, as typed: the argument is one of the three names.\<close>

definition state :: "world \<Rightarrow> scope \<Rightarrow> looked_up \<times> world" where
  "state w scope = state_untyped w (scope_name scope)"

text \<open>
  The milliseconds that each job measures between its two readings of
  \<open>performance.now()\<close>.
\<close>

record elapsed =
  accounts_ms :: rat
  yearly_ms :: rat
  fs_ms :: rat

definition finished :: "env \<Rightarrow> rat \<Rightarrow> string" where
  "finished e ms = ''finished in '' @ toFixed2 e (round64 (ms / 1000))"

text \<open>
  A job sets its status to \<open>starting\<close>, computes its text from the cache, writes its
  file and sets its status to \<open>finished in ...\<close>. When the computation throws, the
  file is not written and the status stays \<open>starting\<close>; the error is the result.
\<close>

definition accounts :: "env \<Rightarrow> rat \<Rightarrow> world \<Rightarrow> world \<times> error option" where
  "accounts e ms w =
     (let w1 = w\<lparr>states := (states w)\<lparr>accounts_status := ''starting''\<rparr>\<rparr>
      in case accounts_text e (parsedFiles w1) of
           Inl err \<Rightarrow> (w1, Some err)
         | Inr text \<Rightarrow>
             (w1\<lparr>out := AList.update ''accounts.csv'' text (out w1),
                 states := (states w1)\<lparr>accounts_status := finished e ms\<rparr>\<rparr>, None))"

definition yearly :: "env \<Rightarrow> rat \<Rightarrow> world \<Rightarrow> world \<times> error option" where
  "yearly e ms w =
     (let w1 = w\<lparr>states := (states w)\<lparr>yearly_status := ''starting''\<rparr>\<rparr>
      in case yearly_text e (parsedFiles w1) of
           Inl err \<Rightarrow> (w1, Some err)
         | Inr text \<Rightarrow>
             (w1\<lparr>out := AList.update ''yearly.csv'' text (out w1),
                 states := (states w1)\<lparr>yearly_status := finished e ms\<rparr>\<rparr>, None))"

definition fs :: "env \<Rightarrow> rat \<Rightarrow> world \<Rightarrow> world \<times> error option" where
  "fs e ms w =
     (let w1 = w\<lparr>states := (states w)\<lparr>fs_status := ''starting''\<rparr>\<rparr>
      in (w1\<lparr>out := AList.update ''fs.csv'' (fs_text e (parsedFiles w1)) (out w1),
             states := (states w1)\<lparr>fs_status := finished e ms\<rparr>\<rparr>, None))"

text \<open>
  \<open>generateAllReports\<close>: the load, then the three jobs. A job that throws does not stop
  the other two, which were started with it; the run then ends with the first error.
  The jobs write different files and different statuses, so the order in which their
  writes complete does not show in the result.
\<close>

definition generateAllReports ::
  "env \<Rightarrow> nat list \<Rightarrow> elapsed \<Rightarrow> world \<Rightarrow> world \<times> error option" where
  "generateAllReports e order ms w =
     (let w0 = w\<lparr>parsedFiles := loadFiles (tmp w) order\<rparr>;
          (w1, r1) = accounts e (accounts_ms ms) w0;
          (w2, r2) = yearly e (yearly_ms ms) w1;
          (w3, r3) = fs e (fs_ms ms) w2
      in (w3, case r1 of Some err \<Rightarrow> Some err | None \<Rightarrow> (case r2 of Some err \<Rightarrow> Some err | None \<Rightarrow> r3)))"

section \<open>Runs that overlap\<close>

text \<open>
  The service runs on one thread, and its callbacks run one at a time, each to its
  next \<open>await\<close>. A run of \<open>generateAllReports\<close> is seen by the rest of the process as
  these events:
  \<^item> \<open>Start r\<close>: the call. \<open>loadFiles\<close> empties \<open>parsedFiles\<close> and awaits \<open>readdir\<close>.
  \<^item> \<open>Listed r\<close>: \<open>readdir\<close> returns, and the reads of the eligible files start. With
    no eligible file \<open>Promise.all\<close> is resolved at once and the three jobs begin.
  \<^item> \<open>ReadDone r i\<close>: the read of the eligible file at position \<open>i\<close> completes, and
    its rows are stored in \<open>parsedFiles\<close> as the service holds it then. When it was
    the last read of run \<open>r\<close> to complete, \<open>loadFiles\<close> returns and the three jobs
    begin: each goes through its loops over \<open>parsedFiles\<close> before its first \<open>await\<close>,
    so all three read the cache as it is at this event.
  A listing or a read that fails rejects the load: the jobs of that run never begin,
  and the run has no further event. Events of different runs of the one service may
  interleave. \<open>observed\<close> records, for each run whose jobs have begun, the cache that
  its jobs read.
\<close>

datatype event = Start nat | Listed nat | ReadDone nat nat

fun run_of :: "event \<Rightarrow> nat" where
  "run_of (Start r) = r"
| "run_of (Listed r) = r"
| "run_of (ReadDone r i) = r"

datatype phase = Idle | Listing | Reading "nat list" | Reporting

record system =
  cached :: "string list list jsobj"
  phase_of :: "nat \<Rightarrow> phase"
  observed :: "(nat \<times> string list list jsobj) list"

definition initial :: "string list list jsobj \<Rightarrow> system" where
  "initial c = \<lparr>cached = c, phase_of = (\<lambda>r. Idle), observed = []\<rparr>"

fun step :: "(string \<times> string) list \<Rightarrow> system \<Rightarrow> event \<Rightarrow> system option" where
  "step dir s (Start r) =
     (if phase_of s r = Idle
      then Some (s\<lparr>cached := [], phase_of := (phase_of s)(r := Listing)\<rparr>)
      else None)"
| "step dir s (Listed r) =
     (if phase_of s r = Listing
      then (if eligible dir = []
            then Some (s\<lparr>phase_of := (phase_of s)(r := Reporting),
                         observed := observed s @ [(r, cached s)]\<rparr>)
            else Some (s\<lparr>phase_of := (phase_of s)(r := Reading [0..<length (eligible dir)])\<rparr>))
      else None)"
| "step dir s (ReadDone r i) =
     (case phase_of s r of
        Reading pending \<Rightarrow>
          if i \<in> set pending
          then (let c = AList.update (fst (eligible dir ! i)) (parse_lines (snd (eligible dir ! i)))
                          (cached s);
                    rest = removeAll i pending
                in if rest = []
                   then Some (s\<lparr>cached := c, phase_of := (phase_of s)(r := Reporting),
                                observed := observed s @ [(r, c)]\<rparr>)
                   else Some (s\<lparr>cached := c, phase_of := (phase_of s)(r := Reading rest)\<rparr>))
          else None
      | _ \<Rightarrow> None)"

text \<open>A sequence of events, from a state; \<open>None\<close> when an event cannot happen.\<close>

fun exec :: "(string \<times> string) list \<Rightarrow> system \<Rightarrow> event list \<Rightarrow> system option" where
  "exec dir s [] = Some s"
| "exec dir s (ev # evs) = (case step dir s ev of None \<Rightarrow> None | Some s' \<Rightarrow> exec dir s' evs)"

text \<open>The event is a call of \<open>generateAllReports\<close>.\<close>

fun is_start :: "event \<Rightarrow> bool" where
  "is_start (Start r) = True"
| "is_start (Listed r) = False"
| "is_start (ReadDone r i) = False"

text \<open>
  Two invariants. In every state that a sequence of events reaches, a pending read is
  the read of an eligible file, and the jobs of a run that has observed the cache have
  begun (\<open>well_formed\<close>). From the call of run \<open>r\<close> on, and as long as no run starts,
  the cache holds what the reads completed since that call have stored, every
  eligible file has been stored since that call or is read by \<open>r\<close> still, and the
  cache that the jobs of \<open>r\<close> read, once they have begun, was that of a completed load
  (\<open>loading\<close>).
\<close>

definition well_formed :: "(string \<times> string) list \<Rightarrow> system \<Rightarrow> bool" where
  "well_formed dir s \<longleftrightarrow>
     (\<forall>q pending. phase_of s q = Reading pending \<longrightarrow>
        set pending \<subseteq> {0..<length (eligible dir)})
     \<and> (\<forall>q c. (q, c) \<in> set (observed s) \<longrightarrow> phase_of s q = Reporting)"

definition complete :: "(string \<times> string) list \<Rightarrow> string list list jsobj \<Rightarrow> bool" where
  "complete dir c \<longleftrightarrow> (\<exists>order. completion_order dir order \<and> c = loadFiles dir order)"

definition loading :: "(string \<times> string) list \<Rightarrow> nat \<Rightarrow> system \<Rightarrow> bool" where
  "loading dir r s \<longleftrightarrow>
     (\<exists>stored. set stored \<subseteq> {0..<length (eligible dir)} \<and> cached s = loadFiles dir stored
        \<and> (case phase_of s r of
              Idle \<Rightarrow> False
            | Listing \<Rightarrow> True
            | Reading pending \<Rightarrow>
                pending \<noteq> [] \<and> {0..<length (eligible dir)} \<subseteq> set stored \<union> set pending
            | Reporting \<Rightarrow> True))
     \<and> (\<forall>c. (r, c) \<in> set (observed s) \<longrightarrow> complete dir c)"

section \<open>Environments and predicates used in the statements\<close>

text \<open>
  A process on UTC. Its other two components are placeholders: the examples below use
  calendar dates and small amounts only, and reach neither.
\<close>

definition env_utc :: env where
  "env_utc =
     \<lparr>localTZA = (\<lambda>t. 0), parse_other_date = (\<lambda>s. None), toString_large = (\<lambda>r. ''1e+21'')\<rparr>"

text \<open>A process five hours behind UTC all year (the zone \<open>Etc/GMT+5\<close>).\<close>

definition env_utc_minus_5 :: env where
  "env_utc_minus_5 =
     \<lparr>localTZA = (\<lambda>t. - 18000000), parse_other_date = (\<lambda>s. None),
      toString_large = (\<lambda>r. ''1e+21'')\<rparr>"

text \<open>
  An invariant of the balances object of \<open>accounts\<close>: a key that names a member of
  \<open>Object.prototype\<close> is absent or holds a string, never a number.
\<close>

definition inherited_keys_text :: "jsval jsobj \<Rightarrow> bool" where
  "inherited_keys_text obj =
     (\<forall>k \<in> set object_prototype_keys. map_of obj k = None \<or> map_of obj k = Some Text)"



text \<open>
  A row with \<open>0\<close> written in the place of a debit or a credit that is missing or
  empty: the row is filled up to five fields, and an empty fourth or fifth field
  becomes \<open>0\<close>.
\<close>

definition zero_filled :: "string list \<Rightarrow> string list" where
  "zero_filled line =
     (let l = line @ replicate (5 - length line) []
      in l[3 := (if l ! 3 = [] then ''0'' else l ! 3),
           4 := (if l ! 4 = [] then ''0'' else l ! 4)])"

subsection \<open>The specification of the Account Balances output\<close>

text \<open>The account of a row, as the key of its balance.\<close>

definition account_of :: "string list \<Rightarrow> string" where
  "account_of line = prop_key (field line 1)"

text \<open>
  The specification's balance of an account: the sum of debit minus credit over the
  rows that carry the account, added up from 0 in the order of the rows, with the
  addition of JavaScript numbers.
\<close>

definition spec_balance :: "string list list \<Rightarrow> string \<Rightarrow> jsnum" where
  "spec_balance rows account =
     foldl jsadd (Fin 0) (map row_amount (filter (\<lambda>line. account_of line = account) rows))"

text \<open>The elements of a list in the order in which they first appear.\<close>

primrec first_seen :: "'a list \<Rightarrow> 'a list" where
  "first_seen [] = []"
| "first_seen (x # xs) = x # filter (\<lambda>y. y \<noteq> x) (first_seen xs)"

text \<open>The order in which an object enumerates keys that were created in the order \<open>ks\<close>.\<close>

definition key_order :: "string list \<Rightarrow> string list" where
  "key_order ks =
     sort_key nat_of_digits (filter is_array_index ks) @ filter (\<lambda>k. \<not> is_array_index k) ks"

text \<open>An optional minus sign, digits, a point and exactly two digits.\<close>

definition two_decimals :: "string \<Rightarrow> bool" where
  "two_decimals s =
     (let t = (if s \<noteq> [] \<and> hd s = CHR ''-'' then tl s else s); n = length t
      in 4 \<le> n \<and> t ! (n - 3) = CHR ''.'' \<and> list_all is_digit (take (n - 3) t)
         \<and> list_all is_digit (drop (n - 2) t))"

(* PROPERTIES *)

section \<open>Numeric fields\<close>

text \<open>
  The arithmetic at some known values: 0.1 is not a binary64 number, \<open>0.1 + 0.2\<close> is
  the number that prints as \<open>0.30000000000000004\<close>, \<open>1e20 + 1 - 1e20\<close> is 0, 1.005 is
  read as a number just below it, so that \<open>toFixed(2)\<close> prints \<open>1.00\<close>, 25.5 is a
  binary64 number, and \<open>2^53 + 1\<close> and \<open>2^53 + 3\<close>, half way between two binary64
  numbers, go to the one with the even significand.
\<close>

lemma binary64_examples:
  "round64 (1 / 10) = Fin (3602879701896397 / 36028797018963968)"
  "jsadd (round64 (1 / 10)) (round64 (1 / 5)) = Fin (1351079888211149 / 4503599627370496)"
  "jsadd (jsadd (parseFloat ''1e20'') (parseFloat ''1'')) (jsneg (parseFloat ''1e20'')) = Fin 0"
  "parseFloat ''1.005'' = Fin (1131529406376837 / 1125899906842624)"
  "toFixed2 e (parseFloat ''1.005'') = ''1.00''"
  "round64 (51 / 2) = Fin (51 / 2)"
  "round64 9007199254740993 = Fin 9007199254740992"
  "round64 9007199254740995 = Fin 9007199254740996"
  by code_simp+

lemma round64_zero: "round64 0 = Fin 0"
  by code_simp

lemma parseFloat_zero: "parseFloat ''0'' = Fin 0"
  by code_simp

lemma or_zero_missing: "f = None \<or> f = Some [] \<Longrightarrow> or_zero f = ''0''"
  by (auto simp: or_zero_def)

lemma jssub_zero: "jssub (Fin 0) (Fin 0) = Fin 0"
  by (simp add: jssub_def round64_zero)

lemma row_amount_short: "length line \<le> 3 \<Longrightarrow> row_amount line = Fin 0"
  by (simp add: row_amount_def field_def or_zero_def parseFloat_zero jssub_zero)

lemma length_zero_filled: "5 \<le> length (zero_filled line)"
  by (simp add: zero_filled_def Let_def)

lemma field_zero_filled_amount:
  "i = 3 \<or> i = 4 \<Longrightarrow> field (zero_filled line) i = Some (or_zero (field line i))"
  by (auto simp: zero_filled_def Let_def field_def or_zero_def nth_append)

lemma field_zero_filled_other:
  "i < 2 \<Longrightarrow> 2 \<le> length line \<Longrightarrow> field (zero_filled line) i = field line i"
  by (auto simp: zero_filled_def Let_def field_def nth_append)

lemma or_zero_twice: "or_zero (Some (or_zero f)) = or_zero f"
  by (auto simp: or_zero_def split: option.splits)

lemma row_amount_zero_filled: "row_amount (zero_filled line) = row_amount line"
  by (simp add: row_amount_def field_zero_filled_amount or_zero_twice)

text \<open>
  Claim C2, as the code has it. Each of the three jobs does with a row what it does
  with the row in which \<open>0\<close> is written for a debit or a credit that is missing (the
  row is too short) or empty. A row of at most three fields, and so a row that has
  only a date and an account, is added as the amount 0: the Account Balances job
  adds 0 to the balance of its account, the Yearly Cash Flow job adds 0 to the year
  of its date when its account is \<open>Cash\<close>, and the Financial Statement job adds 0 to
  the balance of its account when the taxonomy lists it. \<open>parseFloat\<close> is a total
  function into the numbers: it raises nothing. (A field that is present and not a
  number is not read as 0: see \<open>unparseable_amount_is_NaN\<close>.)
\<close>

theorem missing_amount_is_zero:
  "(2 \<le> length line \<longrightarrow>
      accounts_row obj line = accounts_row obj (zero_filled line)
      \<and> yearly_row e obj line = yearly_row e obj (zero_filled line)
      \<and> fs_row balances line = fs_row balances (zero_filled line))
   \<and> (length line \<le> 3 \<longrightarrow>
        row_amount line = Fin 0
        \<and> accounts_row obj line = accumulate obj (prop_key (field line 1)) (Fin 0)
        \<and> yearly_row e obj line
            = (if field line 1 = Some ''Cash''
               then accumulate obj (year_key e (field line 0)) (Fin 0) else obj)
        \<and> fs_row balances line
            = (case map_of balances (prop_key (field line 1)) of
                 Some b \<Rightarrow> AList.update (prop_key (field line 1)) (jsadd b (Fin 0)) balances
               | None \<Rightarrow> balances))
   \<and> zero_filled [date, account] = [date, account, '''', ''0'', ''0'']
   \<and> ((f = None \<or> f = Some []) \<longrightarrow> parseFloat (or_zero f) = Fin 0)"
proof (intro conjI impI)
  assume two: "2 \<le> length line"
  have f0: "field (zero_filled line) 0 = field line 0"
    and f1: "field (zero_filled line) 1 = field line 1"
    using two by (simp_all add: field_zero_filled_other)
  show "accounts_row obj line = accounts_row obj (zero_filled line)"
    unfolding accounts_row_def f1 row_amount_zero_filled by (rule refl)
  show "yearly_row e obj line = yearly_row e obj (zero_filled line)"
    unfolding yearly_row_def f0 f1 row_amount_zero_filled by (rule refl)
  show "fs_row balances line = fs_row balances (zero_filled line)"
    unfolding fs_row_def f1 row_amount_zero_filled by (rule refl)
next
  assume "length line \<le> 3"
  then show amount: "row_amount line = Fin 0"
    by (rule row_amount_short)
  show "accounts_row obj line = accumulate obj (prop_key (field line 1)) (Fin 0)"
    unfolding accounts_row_def amount by (rule refl)
  show "yearly_row e obj line
      = (if field line 1 = Some ''Cash''
         then accumulate obj (year_key e (field line 0)) (Fin 0) else obj)"
    unfolding yearly_row_def amount by (rule refl)
  show "fs_row balances line
      = (case map_of balances (prop_key (field line 1)) of
           Some b \<Rightarrow> AList.update (prop_key (field line 1)) (jsadd b (Fin 0)) balances
         | None \<Rightarrow> balances)"
    unfolding fs_row_def amount Let_def by (rule refl)
next
  show "zero_filled [date, account] = [date, account, '''', ''0'', ''0'']"
    by (simp add: zero_filled_def Let_def numeral_eq_Suc)
next
  assume "f = None \<or> f = Some []"
  then show "parseFloat (or_zero f) = Fin 0"
    by (simp add: or_zero_missing parseFloat_zero)
qed

theorem missing_amount_is_zero_witness:
  "2 \<le> length [''2023-01-01'', ''Cash'', ''rent'', '''']
   \<and> zero_filled [''2023-01-01'', ''Cash'', ''rent'', '''']
       = [''2023-01-01'', ''Cash'', ''rent'', ''0'', ''0'']
   \<and> accounts_row [(''Cash'', Number (Fin 5))] [''2023-01-01'', ''Cash'', ''rent'', '''']
       = [(''Cash'', Number (Fin 5))]
   \<and> yearly_row env_utc [] [''2023-01-01'', ''Cash'', ''rent'', '''']
       = [(''2023'', Number (Fin 0))]
   \<and> fs_row seed_balances [''2023-01-01'', ''Cash'', ''rent'', ''''] = seed_balances
   \<and> length [''2023-01-01'', ''Cash''] \<le> 3
   \<and> row_amount [''2023-01-01'', ''Cash''] = Fin 0
   \<and> accounts_row [(''Cash'', Number (Fin 5))] [''2023-01-01'', ''Cash'']
       = [(''Cash'', Number (Fin 5))]
   \<and> yearly_row env_utc [] [''2023-01-01'', ''Cash''] = [(''2023'', Number (Fin 0))]
   \<and> fs_row seed_balances [''2023-01-01'', ''Cash''] = seed_balances
   \<and> parseFloat (or_zero (field [''2023-01-01'', ''Cash'', ''rent'', ''''] 3)) = Fin 0"
proof -
  let ?line = "[''2023-01-01'', ''Cash'', ''rent'', '''']"
  let ?short = "[''2023-01-01'', ''Cash'']"
  let ?obj = "[(''Cash'', Number (Fin 5))]"
  have two: "2 \<le> length ?line"
    by simp
  have filled: "zero_filled ?line = [''2023-01-01'', ''Cash'', ''rent'', ''0'', ''0'']"
    by code_simp
  have a: "accounts_row ?obj [''2023-01-01'', ''Cash'', ''rent'', ''0'', ''0''] = ?obj"
    by code_simp
  have y: "yearly_row env_utc [] [''2023-01-01'', ''Cash'', ''rent'', ''0'', ''0'']
      = [(''2023'', Number (Fin 0))]"
    by code_simp
  have f: "fs_row seed_balances [''2023-01-01'', ''Cash'', ''rent'', ''0'', ''0''] = seed_balances"
    by code_simp
  have short: "length ?short \<le> 3"
    by simp
  have sa: "accumulate ?obj (prop_key (field ?short 1)) (Fin 0) = ?obj"
    by code_simp
  have sy: "(if field ?short 1 = Some ''Cash''
             then accumulate [] (year_key env_utc (field ?short 0)) (Fin 0) else [])
      = [(''2023'', Number (Fin 0))]"
    by code_simp
  have sf: "(case map_of seed_balances (prop_key (field ?short 1)) of
               Some b \<Rightarrow> AList.update (prop_key (field ?short 1)) (jsadd b (Fin 0)) seed_balances
             | None \<Rightarrow> seed_balances) = seed_balances"
    by code_simp
  have empty: "field ?line 3 = None \<or> field ?line 3 = Some []"
    by (simp add: field_def)
  note t = missing_amount_is_zero [of ?line ?obj env_utc seed_balances "''2023-01-01''" "''Cash''"
      "field ?line 3"]
  note u = missing_amount_is_zero [of ?line "[]" env_utc seed_balances "''2023-01-01''" "''Cash''"
      "field ?line 3"]
  note v = missing_amount_is_zero [of ?short ?obj env_utc seed_balances "''2023-01-01''" "''Cash''"
      "field ?line 3", THEN conjunct2, THEN conjunct1, THEN mp, OF short]
  note w = missing_amount_is_zero [of ?short "[]" env_utc seed_balances "''2023-01-01''" "''Cash''"
      "field ?line 3", THEN conjunct2, THEN conjunct1, THEN mp, OF short]
  have c1: "accounts_row ?obj ?line = ?obj"
    using t [THEN conjunct1, THEN mp, OF two, THEN conjunct1] unfolding filled a .
  have c2: "yearly_row env_utc [] ?line = [(''2023'', Number (Fin 0))]"
    using u [THEN conjunct1, THEN mp, OF two, THEN conjunct2, THEN conjunct1] unfolding filled y .
  have c3: "fs_row seed_balances ?line = seed_balances"
    using t [THEN conjunct1, THEN mp, OF two, THEN conjunct2, THEN conjunct2] unfolding filled f .
  have d1: "row_amount ?short = Fin 0"
    using v [THEN conjunct1] .
  have d2: "accounts_row ?obj ?short = ?obj"
    using v [THEN conjunct2, THEN conjunct1] unfolding sa .
  have d3: "yearly_row env_utc [] ?short = [(''2023'', Number (Fin 0))]"
    using w [THEN conjunct2, THEN conjunct2, THEN conjunct1] unfolding sy .
  have d4: "fs_row seed_balances ?short = seed_balances"
    using v [THEN conjunct2, THEN conjunct2, THEN conjunct2] unfolding sf .
  have c5: "parseFloat (or_zero (field ?line 3)) = Fin 0"
    using t [THEN conjunct2, THEN conjunct2, THEN conjunct2, THEN mp, OF empty] .
  show ?thesis
    using two filled c1 c2 c3 short d1 d2 d3 d4 c5 by (intro conjI)
qed

text \<open>
  The claim as the specification states it fails for a field that is present and is
  not a number: \<open>parseFloat('abc')\<close> is NaN, the row's amount is NaN, and the Account
  Balances job prints it.
\<close>

theorem unparseable_amount_is_NaN:
  "row_amount [''2023-01-01'', ''Cash'', '''', ''abc'', ''0''] = NaN
   \<and> accounts_text env_utc [(''a.csv'', [[''2023-01-01'', ''Cash'', '''', ''abc'', ''0'']])]
       = Inr ''Account,Balance\<newline>Cash,NaN''"
  by code_simp

section \<open>The running balance of one account\<close>

lemma map_of_set_prop:
  "k \<noteq> ''__proto__'' \<Longrightarrow>
   map_of (set_prop obj k v) k' = (if k' = k then Some v else map_of obj k')"
  by (simp add: set_prop_def update_conv')

lemma get_prop_set_prop: "k \<noteq> ''__proto__'' \<Longrightarrow> get_prop (set_prop obj k v) k = v"
  by (simp add: get_prop_def map_of_set_prop)

lemma accumulate_proto: "accumulate obj ''__proto__'' amount = obj"
  by (simp add: accumulate_def Let_def set_prop_def)

lemma accumulate_other: "k' \<noteq> k \<Longrightarrow> map_of (accumulate obj k amount) k' = map_of obj k'"
proof (cases "k = ''__proto__''")
  case True
  then show ?thesis by (simp add: accumulate_proto)
next
  case False
  assume "k' \<noteq> k"
  with False show ?thesis by (simp add: accumulate_def Let_def map_of_set_prop)
qed

lemma accumulate_same:
  "k \<noteq> ''__proto__'' \<Longrightarrow>
   map_of (accumulate obj k amount) k =
     Some (js_plus (if truthy (get_prop obj k) then get_prop obj k else Number (Fin 0)) amount)"
  by (simp add: accumulate_def Let_def map_of_set_prop get_prop_set_prop)

text \<open>What a row does to one key depends on the value stored under that key only.\<close>

lemma accumulate_cong:
  assumes "map_of obj1 k' = map_of obj2 k'"
  shows "map_of (accumulate obj1 k amount) k' = map_of (accumulate obj2 k amount) k'"
proof (cases "k' = k")
  case False
  then show ?thesis using assms by (simp add: accumulate_other)
next
  case True
  show ?thesis
  proof (cases "k = ''__proto__''")
    case True
    then show ?thesis using assms by (simp add: accumulate_proto)
  next
    case False
    have "get_prop obj1 k = get_prop obj2 k"
      using assms True by (simp add: get_prop_def)
    then show ?thesis using False True by (simp add: accumulate_same)
  qed
qed

lemma foldl_accounts_row_cong:
  "map_of obj1 k = map_of obj2 k \<Longrightarrow>
   map_of (foldl accounts_row obj1 rows) k = map_of (foldl accounts_row obj2 rows) k"
proof (induction rows arbitrary: obj1 obj2)
  case Nil
  then show ?case by simp
next
  case (Cons r rows)
  have "map_of (accounts_row obj1 r) k = map_of (accounts_row obj2 r) k"
    unfolding accounts_row_def using Cons.prems by (rule accumulate_cong)
  from Cons.IH[OF this] show ?case by simp
qed

lemma accumulate_inv:
  assumes "inherited_keys_text obj"
  shows "inherited_keys_text (accumulate obj k amount)"
  unfolding inherited_keys_text_def
proof
  fix k' assume k': "k' \<in> set object_prototype_keys"
  from assms k' have old: "map_of obj k' = None \<or> map_of obj k' = Some Text"
    by (simp add: inherited_keys_text_def)
  show "map_of (accumulate obj k amount) k' = None
      \<or> map_of (accumulate obj k amount) k' = Some Text"
  proof (cases "k' = k")
    case False
    then show ?thesis using old by (simp add: accumulate_other)
  next
    case same: True
    show ?thesis
    proof (cases "k = ''__proto__''")
      case True
      then show ?thesis using old same by (simp add: accumulate_proto)
    next
      case False
      from old same k' have "get_prop obj k = Inherited \<or> get_prop obj k = Text"
        by (auto simp: get_prop_def)
      then have "map_of (accumulate obj k amount) k = Some Text"
        using False by (auto simp: accumulate_same)
      then show ?thesis using same by simp
    qed
  qed
qed

lemma inherited_keys_text_foldl:
  "inherited_keys_text obj \<Longrightarrow> inherited_keys_text (foldl accounts_row obj rows)"
  by (induction rows arbitrary: obj) (simp_all add: accounts_row_def accumulate_inv)

lemma inherited_keys_text_empty: "inherited_keys_text []"
  by (simp add: inherited_keys_text_def)

lemma proto_is_inherited: "''__proto__'' \<in> set object_prototype_keys"
  by (simp add: object_prototype_keys_def)

lemma number_key_not_inherited:
  assumes "inherited_keys_text obj" "map_of obj k = Some (Number b)"
  shows "k \<notin> set object_prototype_keys"
  using assms by (auto simp: inherited_keys_text_def)

text \<open>
  Claim C10. In the Account Balances job, when the balance stored for an account after
  the rows \<open>prior\<close> is falsy (zero or NaN), the next row of that account stores
  \<open>0 + (debit - credit)\<close> of that row alone; and whatever rows follow, the account's
  balance is what it would have been had the rows \<open>prior\<close> never been there. So a NaN
  from an unparseable amount is dropped, with every earlier contribution to the
  account, as soon as the account has another row.
\<close>

theorem falsy_balance_is_reset:
  assumes "map_of (foldl accounts_row [] prior) k = Some (Number b)"
    and "falsy b"
    and "prop_key (field line 1) = k"
  shows "map_of (foldl accounts_row [] (prior @ [line])) k
           = Some (Number (jsadd (Fin 0) (row_amount line)))
       \<and> map_of (foldl accounts_row [] (prior @ line # rest)) k
           = map_of (foldl accounts_row [] (line # rest)) k"
proof -
  let ?B = "foldl accounts_row [] prior"
  have inv: "inherited_keys_text ?B"
    by (rule inherited_keys_text_foldl) (rule inherited_keys_text_empty)
  have notin: "k \<notin> set object_prototype_keys"
    using inv assms(1) by (rule number_key_not_inherited)
  then have np: "k \<noteq> ''__proto__''"
    using proto_is_inherited by auto
  have g: "get_prop ?B k = Number b"
    using assms(1) by (simp add: get_prop_def)
  have step: "map_of (accounts_row ?B line) k = Some (Number (jsadd (Fin 0) (row_amount line)))"
    using np g assms(2,3) by (simp add: accounts_row_def accumulate_same)
  have g0: "get_prop [] k = Undefined"
    using notin by (simp add: get_prop_def)
  have step0: "map_of (accounts_row [] line) k = Some (Number (jsadd (Fin 0) (row_amount line)))"
    using np g0 assms(3) by (simp add: accounts_row_def accumulate_same)
  have "map_of (foldl accounts_row (accounts_row ?B line) rest) k
      = map_of (foldl accounts_row (accounts_row [] line) rest) k"
    by (rule foldl_accounts_row_cong) (simp add: step step0)
  then show ?thesis using step by simp
qed

theorem falsy_balance_is_reset_witness:
  "map_of (foldl accounts_row []
       [[''2023-01-01'', ''Cash'', '''', ''50'', ''0''], [''2023-01-02'', ''Cash'', '''', ''abc'', ''0'']])
     ''Cash'' = Some (Number NaN)
   \<and> falsy NaN
   \<and> prop_key (field [''2023-01-03'', ''Cash'', '''', ''100'', ''0''] 1) = ''Cash''
   \<and> map_of (foldl accounts_row []
       ([[''2023-01-01'', ''Cash'', '''', ''50'', ''0''], [''2023-01-02'', ''Cash'', '''', ''abc'', ''0'']]
        @ [[''2023-01-03'', ''Cash'', '''', ''100'', ''0'']]))
     ''Cash'' = Some (Number (Fin 100))
   \<and> map_of (foldl accounts_row []
       ([[''2023-01-01'', ''Cash'', '''', ''50'', ''0''], [''2023-01-02'', ''Cash'', '''', ''abc'', ''0'']]
        @ [''2023-01-03'', ''Cash'', '''', ''100'', ''0''] # [[''2023-01-04'', ''Cash'', '''', ''0'', ''30'']]))
     ''Cash''
     = map_of (foldl accounts_row []
         ([''2023-01-03'', ''Cash'', '''', ''100'', ''0''] # [[''2023-01-04'', ''Cash'', '''', ''0'', ''30'']]))
       ''Cash''"
proof -
  have a: "map_of (foldl accounts_row []
       [[''2023-01-01'', ''Cash'', '''', ''50'', ''0''], [''2023-01-02'', ''Cash'', '''', ''abc'', ''0'']])
     ''Cash'' = Some (Number NaN)"
    by code_simp
  have b: "falsy NaN"
    by (simp add: falsy_def)
  have c: "prop_key (field [''2023-01-03'', ''Cash'', '''', ''100'', ''0''] 1) = ''Cash''"
    by (simp add: prop_key_def field_def)
  have d: "jsadd (Fin 0) (row_amount [''2023-01-03'', ''Cash'', '''', ''100'', ''0'']) = Fin 100"
    by code_simp
  show ?thesis
    using a b c d
      falsy_balance_is_reset [OF a b c, of "[[''2023-01-04'', ''Cash'', '''', ''0'', ''30'']]"]
    by simp
qed

section \<open>Calendar arithmetic\<close>

lemma div_bounds:
  fixes x k :: int
  assumes "0 < k"
  shows "k * (x div k) \<le> x \<and> x < k * (x div k) + k"
  using mult_div_mod_eq [of k x] pos_mod_bound [OF assms, of x] pos_mod_sign [OF assms, of x]
  by linarith
lemma DayFromYear_bounds:
  "146097 * y - 287811697 < 400 * DayFromYear y \<and> 400 * DayFromYear y < 146097 * y - 287810497"
proof -
  define a where "a = (y - 1969) div 4"
  define b where "b = (y - 1901) div 100"
  define c where "c = (y - 1601) div 400"
  have a: "4 * a \<le> y - 1969 \<and> y - 1969 < 4 * a + 4"
    unfolding a_def by (rule div_bounds) simp
  have b: "100 * b \<le> y - 1901 \<and> y - 1901 < 100 * b + 100"
    unfolding b_def by (rule div_bounds) simp
  have c: "400 * c \<le> y - 1601 \<and> y - 1601 < 400 * c + 400"
    unfolding c_def by (rule div_bounds) simp
  have "400 * DayFromYear y = 146000 * y - 287620000 + 400 * a - 400 * b + 400 * c"
    by (simp add: DayFromYear_def a_def b_def c_def algebra_simps)
  then show ?thesis
    using a b c by linarith
qed
lemma YearFromDay_correct:
  "DayFromYear (YearFromDay day) \<le> day \<and> day < DayFromYear (YearFromDay day + 1)"
proof -
  define q where "q = (day * 400) div 146097"
  have e: "146097 * q \<le> day * 400 \<and> day * 400 < 146097 * q + 146097"
    unfolding q_def by (rule div_bounds) simp
  define y1 where "y1 = 1970 + q - 1"
  define y2 where "y2 = 1970 + q + 1 + 1"
  have "400 * DayFromYear y1 < 146097 * y1 - 287810497"
    using DayFromYear_bounds [of y1] by simp
  then have lo: "DayFromYear y1 \<le> day"
    using e y1_def by linarith
  have "146097 * y2 - 287811697 < 400 * DayFromYear y2"
    using DayFromYear_bounds [of y2] by simp
  then have hi: "day < DayFromYear y2"
    using e y2_def by linarith
  show ?thesis
    unfolding YearFromDay_def Let_def q_def [symmetric]
    using lo hi unfolding y1_def y2_def by auto
qed
lemma DayFromYear_next: "DayFromYear y < DayFromYear (y + 1)"
proof -
  have a: "(y - 1969) div 4 \<le> (y + 1 - 1969) div 4" by (rule zdiv_mono1) simp_all
  have c: "(y - 1601) div 400 \<le> (y + 1 - 1601) div 400" by (rule zdiv_mono1) simp_all
  define b1 where "b1 = (y - 1901) div 100"
  define b2 where "b2 = (y + 1 - 1901) div 100"
  have f1: "100 * b1 \<le> y - 1901 \<and> y - 1901 < 100 * b1 + 100"
    unfolding b1_def by (rule div_bounds) simp
  have f2: "100 * b2 \<le> y + 1 - 1901 \<and> y + 1 - 1901 < 100 * b2 + 100"
    unfolding b2_def by (rule div_bounds) simp
  have b: "b2 \<le> b1 + 1"
    using f1 f2 by linarith
  define a1 where "a1 = (y - 1969) div 4"
  define a2 where "a2 = (y + 1 - 1969) div 4"
  define c1 where "c1 = (y - 1601) div 400"
  define c2 where "c2 = (y + 1 - 1601) div 400"
  have "DayFromYear y = 365 * y - 719050 + a1 - b1 + c1"
    by (simp add: DayFromYear_def a1_def b1_def c1_def algebra_simps)
  moreover have "DayFromYear (y + 1) = 365 * y - 718685 + a2 - b2 + c2"
    by (simp add: DayFromYear_def a2_def b2_def c2_def algebra_simps)
  moreover have "a1 \<le> a2" "c1 \<le> c2" using a c by (simp_all add: a1_def a2_def c1_def c2_def)
  ultimately show ?thesis using b by linarith
qed

lemma DayFromYear_mono: "a \<le> b \<Longrightarrow> DayFromYear a \<le> DayFromYear b"
proof -
  have "DayFromYear a \<le> DayFromYear (a + int n)" for n
  proof (induction n)
    case 0
    then show ?case by simp
  next
    case (Suc n)
    have "DayFromYear (a + int n) < DayFromYear (a + int n + 1)"
      by (rule DayFromYear_next)
    moreover have "a + int (Suc n) = a + int n + 1"
      by simp
    ultimately show ?case using Suc by (simp only:)
  qed
  from this [of "nat (b - a)"] show "a \<le> b \<Longrightarrow> DayFromYear a \<le> DayFromYear b"
    by simp
qed

lemma YearFromDay_unique:
  assumes "DayFromYear y \<le> day" and "day < DayFromYear (y + 1)"
  shows "YearFromDay day = y"
proof (rule ccontr)
  assume ne: "YearFromDay day \<noteq> y"
  let ?r = "YearFromDay day"
  have r: "DayFromYear ?r \<le> day \<and> day < DayFromYear (?r + 1)"
    by (rule YearFromDay_correct)
  show False
  proof (cases "?r < y")
    case True
    then have "DayFromYear (?r + 1) \<le> DayFromYear y"
      by (intro DayFromYear_mono) simp
    then show False using r assms by linarith
  next
    case False
    with ne have "DayFromYear (y + 1) \<le> DayFromYear ?r"
      by (intro DayFromYear_mono) simp
    then show False using r assms by linarith
  qed
qed


lemma iso_2023_01_01: "iso_date ''2023-01-01'' = Some 1672531200000"
  by code_simp

lemma year_2023:
  assumes "0 \<le> localTZA e 1672531200000" and "localTZA e 1672531200000 < 31536000000"
  shows "getFullYear e ''2023-01-01'' = Some 2023"
proof -
  define day where "day = (1672531200000 + localTZA e 1672531200000) div 86400000"
  have b: "86400000 * day \<le> 1672531200000 + localTZA e 1672531200000
         \<and> 1672531200000 + localTZA e 1672531200000 < 86400000 * day + 86400000"
    unfolding day_def by (rule div_bounds) simp
  have lo: "DayFromYear 2023 \<le> day"
    using b assms by (simp add: DayFromYear_def)
  have hi: "day < DayFromYear (2023 + 1)"
    using b assms by (simp add: DayFromYear_def)
  have "YearFromDay day = 2023"
    using lo hi by (rule YearFromDay_unique)
  then show ?thesis
    using assms by (simp add: getFullYear_def Date_parse_def iso_2023_01_01 msPerDay_def day_def)
qed

section \<open>The scenario of one file\<close>

lemma amount_100: "row_amount [''2023-01-01'', ''Cash'', '''', ''100'', ''0''] = Fin 100"
  by code_simp

lemma show_int_2023: "show_int 2023 = ''2023''"
  by code_simp

lemma scenario_cache:
  "loadFiles [(''a.csv'', ''2023-01-01,Cash,,100,0\<newline>2023-02-01,Sales Revenue,,0,100\<newline>'')] [0]
     = [(''a.csv'', [[''2023-01-01'', ''Cash'', '''', ''100'', ''0''],
                     [''2023-02-01'', ''Sales Revenue'', '''', ''0'', ''100'']])]"
  by code_simp

lemma scenario_accounts:
  "accounts_text e [(''a.csv'', [[''2023-01-01'', ''Cash'', '''', ''100'', ''0''],
                                 [''2023-02-01'', ''Sales Revenue'', '''', ''0'', ''100'']])]
     = Inr ''Account,Balance\<newline>Cash,100.00\<newline>Sales Revenue,-100.00''"
  by code_simp

lemma scenario_fs:
  "fs_text e [(''a.csv'', [[''2023-01-01'', ''Cash'', '''', ''100'', ''0''],
                           [''2023-02-01'', ''Sales Revenue'', '''', ''0'', ''100'']])]
     = ''Basic Financial Statement\<newline>\<newline>Income Statement\<newline>Sales Revenue,-100.00\<newline>Cost of Goods Sold,0.00\<newline>Salaries Expense,0.00\<newline>Rent Expense,0.00\<newline>Utilities Expense,0.00\<newline>Interest Expense,0.00\<newline>Tax Expense,0.00\<newline>Net Income,-100.00\<newline>\<newline>Balance Sheet\<newline>Assets\<newline>Cash,100.00\<newline>Accounts Receivable,0.00\<newline>Inventory,0.00\<newline>Fixed Assets,0.00\<newline>Prepaid Expenses,0.00\<newline>Total Assets,100.00\<newline>\<newline>Liabilities\<newline>Accounts Payable,0.00\<newline>Loan Payable,0.00\<newline>Sales Tax Payable,0.00\<newline>Accrued Liabilities,0.00\<newline>Unearned Revenue,0.00\<newline>Dividends Payable,0.00\<newline>Total Liabilities,0.00\<newline>\<newline>Equity\<newline>Common Stock,0.00\<newline>Retained Earnings,0.00\<newline>Retained Earnings (Net Income),-100.00\<newline>Total Equity,-100.00\<newline>\<newline>Assets = Liabilities + Equity, 100.00 = -100.00''"
  by code_simp

lemma scenario_totals:
  "snd (group_lines e
         (fs_balances [(''a.csv'', [[''2023-01-01'', ''Cash'', '''', ''100'', ''0''],
                                    [''2023-02-01'', ''Sales Revenue'', '''', ''0'', ''100'']])])
         revenues ([], Fin 0)) = Fin (- 100)
   \<and> snd (group_lines e
         (fs_balances [(''a.csv'', [[''2023-01-01'', ''Cash'', '''', ''100'', ''0''],
                                    [''2023-02-01'', ''Sales Revenue'', '''', ''0'', ''100'']])])
         expenses ([], Fin 0)) = Fin 0"
  by code_simp

lemma scenario_yearly:
  assumes "0 \<le> localTZA e 1672531200000" and "localTZA e 1672531200000 < 31536000000"
  shows "yearly_text e [(''a.csv'', [[''2023-01-01'', ''Cash'', '''', ''100'', ''0''],
                                     [''2023-02-01'', ''Sales Revenue'', '''', ''0'', ''100'']])]
           = Inr ''Financial Year,Cash Balance\<newline>2023,100.00''"
proof -
  have rows: "yearly_rows [(''a.csv'', [[''2023-01-01'', ''Cash'', '''', ''100'', ''0''],
                                        [''2023-02-01'', ''Sales Revenue'', '''', ''0'', ''100'']])]
      = [[''2023-01-01'', ''Cash'', '''', ''100'', ''0''],
         [''2023-02-01'', ''Sales Revenue'', '''', ''0'', ''100'']]"
    by code_simp
  have key: "year_key e (field [''2023-01-01'', ''Cash'', '''', ''100'', ''0''] 0) = ''2023''"
    using year_2023 [OF assms] by (simp add: year_key_def field_def show_int_2023)
  have fresh: "accumulate [] ''2023'' (Fin 100) = [(''2023'', Number (Fin 100))]"
    by code_simp
  have obj: "cashByYear e [(''a.csv'', [[''2023-01-01'', ''Cash'', '''', ''100'', ''0''],
                                        [''2023-02-01'', ''Sales Revenue'', '''', ''0'', ''100'']])]
      = [(''2023'', Number (Fin 100))]"
    unfolding cashByYear_def rows
    by (simp add: yearly_row_def key amount_100 fresh) (simp add: field_def)
  have keys: "sort (map fst (entries [(''2023'', Number (Fin 100))])) = [''2023'']"
    by code_simp
  have lines: "year_lines e [(''2023'', Number (Fin 100))] [''2023''] [''Financial Year,Cash Balance'']
      = Inr [''Financial Year,Cash Balance'', ''2023,100.00'']"
    by code_simp
  show ?thesis
    unfolding yearly_text_def obj Let_def keys lines by simp
qed

lemma run_writes:
  "map_of (out (fst (generateAllReports e order ms w))) ''accounts.csv''
     = (case accounts_text e (loadFiles (tmp w) order) of
          Inr text \<Rightarrow> Some text | Inl err \<Rightarrow> map_of (out w) ''accounts.csv'')
   \<and> map_of (out (fst (generateAllReports e order ms w))) ''yearly.csv''
     = (case yearly_text e (loadFiles (tmp w) order) of
          Inr text \<Rightarrow> Some text | Inl err \<Rightarrow> map_of (out w) ''yearly.csv'')
   \<and> map_of (out (fst (generateAllReports e order ms w))) ''fs.csv''
     = Some (fs_text e (loadFiles (tmp w) order))"
  by (simp add: generateAllReports_def accounts_def yearly_def fs_def Let_def update_conv'
      split: sum.splits prod.splits)

text \<open>
  Claim C5, the part that the code keeps. With the single file \<open>a.csv\<close> of the two
  rows \<open>2023-01-01,Cash,,100,0\<close> and \<open>2023-02-01,Sales Revenue,,0,100\<close> in \<open>tmp\<close>, a
  run writes \<open>Cash,100.00\<close> and \<open>Sales Revenue,-100.00\<close> to \<open>accounts.csv\<close> and the
  line \<open>Net Income,-100.00\<close> to \<open>fs.csv\<close> (total revenue -100, total expenses 0:
  debit minus credit, also for the credit-normal revenue account), in every
  environment. It writes the row \<open>2023,100.00\<close> to \<open>yearly.csv\<close> when local time is
  at or ahead of UTC at midnight UTC of 2023-01-01 (by less than a year).
\<close>

lemma scenario_a_csv:
  assumes "tmp w = [(''a.csv'', ''2023-01-01,Cash,,100,0\<newline>2023-02-01,Sales Revenue,,0,100\<newline>'')]"
  shows "map_of (out (fst (generateAllReports e [0] ms w))) ''accounts.csv''
           = Some ''Account,Balance\<newline>Cash,100.00\<newline>Sales Revenue,-100.00''
       \<and> map_of (out (fst (generateAllReports e [0] ms w))) ''fs.csv''
           = Some ''Basic Financial Statement\<newline>\<newline>Income Statement\<newline>Sales Revenue,-100.00\<newline>Cost of Goods Sold,0.00\<newline>Salaries Expense,0.00\<newline>Rent Expense,0.00\<newline>Utilities Expense,0.00\<newline>Interest Expense,0.00\<newline>Tax Expense,0.00\<newline>Net Income,-100.00\<newline>\<newline>Balance Sheet\<newline>Assets\<newline>Cash,100.00\<newline>Accounts Receivable,0.00\<newline>Inventory,0.00\<newline>Fixed Assets,0.00\<newline>Prepaid Expenses,0.00\<newline>Total Assets,100.00\<newline>\<newline>Liabilities\<newline>Accounts Payable,0.00\<newline>Loan Payable,0.00\<newline>Sales Tax Payable,0.00\<newline>Accrued Liabilities,0.00\<newline>Unearned Revenue,0.00\<newline>Dividends Payable,0.00\<newline>Total Liabilities,0.00\<newline>\<newline>Equity\<newline>Common Stock,0.00\<newline>Retained Earnings,0.00\<newline>Retained Earnings (Net Income),-100.00\<newline>Total Equity,-100.00\<newline>\<newline>Assets = Liabilities + Equity, 100.00 = -100.00''
       \<and> snd (group_lines e (fs_balances (loadFiles (tmp w) [0])) revenues ([], Fin 0)) = Fin (- 100)
       \<and> snd (group_lines e (fs_balances (loadFiles (tmp w) [0])) expenses ([], Fin 0)) = Fin 0
       \<and> (0 \<le> localTZA e 1672531200000 \<and> localTZA e 1672531200000 < 31536000000 \<longrightarrow>
            map_of (out (fst (generateAllReports e [0] ms w))) ''yearly.csv''
              = Some ''Financial Year,Cash Balance\<newline>2023,100.00'')"
  using run_writes [of e "[0]" ms w] scenario_totals [of e]
  by (simp add: assms(1) scenario_cache scenario_accounts scenario_yearly scenario_fs)

text \<open>
  Claim C5 where the code breaks it. \<open>new Date('2023-01-01')\<close> is midnight UTC of that
  day, and \<open>getFullYear()\<close> is the year of that instant in local time: in a process
  behind UTC the instant is still in 2022, and the amount of the row dated
  \<open>2023-01-01\<close> is written to \<open>yearly.csv\<close> under the year 2022.
\<close>

theorem scenario_behind_utc:
  "getFullYear env_utc_minus_5 ''2023-01-01'' = Some 2022
   \<and> map_of (out (fst (generateAllReports env_utc_minus_5 [0]
         \<lparr>accounts_ms = 12, yearly_ms = 7, fs_ms = 31\<rparr>
         \<lparr>states = idle, parsedFiles = [],
          tmp = [(''a.csv'', ''2023-01-01,Cash,,100,0\<newline>2023-02-01,Sales Revenue,,0,100\<newline>'')],
          out = []\<rparr>))) ''yearly.csv''
       = Some ''Financial Year,Cash Balance\<newline>2022,100.00''"
  by code_simp

section \<open>Record Parser\<close>

lemma dropWhile_append_all:
  "\<forall>x \<in> set ws. P x \<Longrightarrow>
   dropWhile P (rev ws @ ys) = dropWhile P ys"
  by (induction ws arbitrary: ys) (simp_all add: dropWhile_append)

lemma trim_trailing:
  assumes "\<forall>c \<in> set ws. is_ws c"
  shows "trim (s @ ws) = trim s"
proof (cases "\<forall>c \<in> set s. is_ws c")
  case True
  then have a: "dropWhile is_ws (s @ ws) = []" and b: "dropWhile is_ws s = []"
    using assms by (simp_all only: dropWhile_eq_Nil_conv set_append ball_Un simp_thms)
  show ?thesis unfolding trim_def a b ..
next
  case False
  then have c: "dropWhile is_ws (s @ ws) = dropWhile is_ws s @ ws"
    by (auto simp: dropWhile_append)
  have "dropWhile is_ws (rev ws @ rev (dropWhile is_ws s)) = dropWhile is_ws (rev (dropWhile is_ws s))"
    using assms by (rule dropWhile_append_all)
  then show ?thesis
    unfolding trim_def c by (simp only: rev_append)
qed

lemma trailing_blank_lines_ignored:
  "\<forall>c \<in> set ws. is_ws c \<Longrightarrow> parse_lines (content @ ws) = parse_lines content"
  by (simp add: parse_lines_def trim_trailing)

text \<open>
  Claim C7, the part that the code keeps: the text is split at line feeds and each
  line at commas, a field keeps its inner and outer blanks, and blank lines at the end
  of the text give no row, because \<open>trim\<close> removes them before the split.
\<close>

lemma trailing_newline_example:
  "parse_lines ''2023-01-01,Cash, cash sale ,100,0\<newline>\<newline>''
     = [[''2023-01-01'', ''Cash'', '' cash sale '', ''100'', ''0'']]"
  by code_simp

text \<open>
  Claim C7 where the code breaks it: the empty text is not split into no lines but
  into the one empty line, so an empty file gives one row of one empty field. The
  Account Balances job reads its account as \<open>undefined\<close> and prints a line for it.
\<close>

theorem empty_file_yields_a_row:
  "parse_lines '''' = [['''']]
   \<and> accounts_text env_utc (loadFiles [(''empty.csv'', '''')] [0])
       = Inr ''Account,Balance\<newline>undefined,0.00''"
  by code_simp

section \<open>Status query\<close>

lemma jobs_statuses:
  "snd (generateAllReports e order ms w) = None \<Longrightarrow>
   states (fst (generateAllReports e order ms w))
     = \<lparr>accounts_status = finished e (accounts_ms ms),
        yearly_status = finished e (yearly_ms ms),
        fs_status = finished e (fs_ms ms)\<rparr>"
  by (auto simp: generateAllReports_def accounts_def yearly_def fs_def Let_def
      split: sum.splits prod.splits option.splits)

text \<open>
  Claim C8, as the code has it. For each of the three job names the query returns the
  job's current status: \<open>idle\<close> at first, and \<open>finished in ...\<close> with the job's own
  duration after a run that raised nothing. The parameter of \<open>state\<close> has the type of
  these three names. Called with any other string, \<open>this.states[scope]\<close> is
  \<open>undefined\<close>, or a member inherited from \<open>Object.prototype\<close>, and that is what the
  caller gets: there is no usage error. Whatever the name, the call leaves the
  service as it was: its statuses, its cache and the two directories, so that a run
  after the query does what it does without the query.
\<close>

theorem status_query:
  "fst (state w Accounts) = Status (accounts_status (states w))
   \<and> fst (state w Yearly) = Status (yearly_status (states w))
   \<and> fst (state w Fs) = Status (fs_status (states w))
   \<and> (name \<notin> {''accounts'', ''yearly'', ''fs''} \<longrightarrow>
        fst (state_untyped w name) = Not_found \<or> fst (state_untyped w name) = Prototype_member)
   \<and> snd (state w scope) = w
   \<and> snd (state_untyped w name) = w
   \<and> generateAllReports e order ms (snd (state_untyped w name)) = generateAllReports e order ms w
   \<and> fst (state (w\<lparr>states := idle\<rparr>) scope) = Status ''idle''
   \<and> (snd (generateAllReports e order ms w) = None \<longrightarrow>
        fst (state (fst (generateAllReports e order ms w)) Accounts)
          = Status (finished e (accounts_ms ms))
        \<and> fst (state (fst (generateAllReports e order ms w)) Yearly)
          = Status (finished e (yearly_ms ms))
        \<and> fst (state (fst (generateAllReports e order ms w)) Fs)
          = Status (finished e (fs_ms ms)))"
proof -
  have unchanged: "snd (state_untyped w n) = w" for n
    by (simp add: state_untyped_def)
  have typed: "fst (state v Accounts) = Status (accounts_status (states v))
      \<and> fst (state v Yearly) = Status (yearly_status (states v))
      \<and> fst (state v Fs) = Status (fs_status (states v))" for v
    by (simp add: state_def state_untyped_def states_object_def)
  have other: "fst (state_untyped w name) = Not_found \<or> fst (state_untyped w name) = Prototype_member"
    if "name \<notin> {''accounts'', ''yearly'', ''fs''}"
    using that by (simp add: state_untyped_def states_object_def)
  have first: "fst (state (w\<lparr>states := idle\<rparr>) scope) = Status ''idle''"
    using typed [of "w\<lparr>states := idle\<rparr>"] by (cases scope) (simp_all add: idle_def)
  have after: "fst (state (fst (generateAllReports e order ms w)) Accounts)
          = Status (finished e (accounts_ms ms))
        \<and> fst (state (fst (generateAllReports e order ms w)) Yearly)
          = Status (finished e (yearly_ms ms))
        \<and> fst (state (fst (generateAllReports e order ms w)) Fs)
          = Status (finished e (fs_ms ms))"
    if "snd (generateAllReports e order ms w) = None"
    using typed [of "fst (generateAllReports e order ms w)"] jobs_statuses [OF that] by simp
  show ?thesis
    using typed [of w] other first after
    by (simp add: unchanged state_def)
qed

theorem status_query_witness:
  "''toString'' \<notin> {''accounts'', ''yearly'', ''fs''}
   \<and> state_untyped \<lparr>states = idle, parsedFiles = [], tmp = [], out = []\<rparr> ''toString''
       = (Prototype_member, \<lparr>states = idle, parsedFiles = [], tmp = [], out = []\<rparr>)
   \<and> snd (generateAllReports env_utc [] \<lparr>accounts_ms = 12, yearly_ms = 3456, fs_ms = 31\<rparr>
            \<lparr>states = idle, parsedFiles = [], tmp = [], out = []\<rparr>) = None
   \<and> fst (state (fst (generateAllReports env_utc [] \<lparr>accounts_ms = 12, yearly_ms = 3456, fs_ms = 31\<rparr>
            \<lparr>states = idle, parsedFiles = [], tmp = [], out = []\<rparr>)) Yearly)
       = Status ''finished in 3.46''"
proof -
  let ?w = "\<lparr>states = idle, parsedFiles = [], tmp = [], out = []\<rparr>"
  let ?ms = "\<lparr>accounts_ms = 12, yearly_ms = 3456, fs_ms = 31\<rparr>"
  have a: "''toString'' \<notin> {''accounts'', ''yearly'', ''fs''}"
    by simp
  have b: "fst (state_untyped ?w ''toString'') \<noteq> Not_found"
    by code_simp
  have c: "snd (generateAllReports env_utc [] ?ms ?w) = None"
    by code_simp
  have d: "finished env_utc (yearly_ms ?ms) = ''finished in 3.46''"
    by code_simp
  note t = status_query [of ?w "''toString''" Yearly env_utc "[]" ?ms]
  have inherited: "fst (state_untyped ?w ''toString'') = Prototype_member"
    using t [THEN conjunct2, THEN conjunct2, THEN conjunct2, THEN conjunct1, THEN mp, OF a] b
    by blast
  have unchanged: "snd (state_untyped ?w ''toString'') = ?w"
    using t [THEN conjunct2, THEN conjunct2, THEN conjunct2, THEN conjunct2, THEN conjunct2,
        THEN conjunct1] .
  have pair: "state_untyped ?w ''toString'' = (Prototype_member, ?w)"
    using inherited unchanged by (simp only: prod_eq_iff fst_conv snd_conv simp_thms)
  have after: "fst (state (fst (generateAllReports env_utc [] ?ms ?w)) Yearly)
      = Status ''finished in 3.46''"
    using t [THEN conjunct2, THEN conjunct2, THEN conjunct2, THEN conjunct2, THEN conjunct2,
        THEN conjunct2, THEN conjunct2, THEN conjunct2, THEN mp, OF c, THEN conjunct2,
        THEN conjunct1]
    unfolding d .
  show ?thesis
    using a pair c after by (intro conjI)
qed

text \<open>
  The claim as the specification states it fails for an unrecognized name: the call
  returns \<open>undefined\<close>, and reports nothing.
\<close>

theorem unrecognized_name_returns_undefined:
  "fst (state_untyped \<lparr>states = idle, parsedFiles = [], tmp = [], out = []\<rparr> ''reports'')
     = Not_found"
  by code_simp

section \<open>Decimal digits\<close>

lemma digit_chars: "list_all (\<lambda>n. is_digit (digit_char n)) [0 ..< 10]"
  by code_simp

lemma digit_char_is_digit: "n < 10 \<Longrightarrow> is_digit (digit_char n)"
  using digit_chars by (simp add: list_all_iff)

lemma digits_from_digits:
  "(b \<longrightarrow> n < 10) \<Longrightarrow> digits_from b n \<noteq> [] \<and> list_all is_digit (digits_from b n)"
proof (induction b n rule: digits_from.induct)
  case (1 n)
  then show ?case
    by (simp add: digit_char_is_digit)
next
  case (2 n)
  then show ?case by (simp add: digit_char_is_digit)
qed

lemma digits_digits: "digits n \<noteq> [] \<and> list_all is_digit (digits n)"
  unfolding digits_def by (rule digits_from_digits) simp

lemma minus_no_digit: "\<not> is_digit CHR ''-''" and zero_digit: "is_digit CHR ''0''"
  by (simp_all add: is_digit_def)

lemma two_decimals_shape:
  assumes "list_all is_digit A" and "A \<noteq> []" and "list_all is_digit B" and "length B = 2"
  shows "two_decimals (A @ ''.'' @ B) \<and> two_decimals (''-'' @ A @ ''.'' @ B)"
proof -
  have hd: "hd A \<noteq> CHR ''-''"
    using assms(1,2) minus_no_digit by (cases A) auto
  have body: "4 \<le> length (A @ ''.'' @ B)
      \<and> (A @ ''.'' @ B) ! (length (A @ ''.'' @ B) - 3) = CHR ''.''
      \<and> list_all is_digit (take (length (A @ ''.'' @ B) - 3) (A @ ''.'' @ B))
      \<and> list_all is_digit (drop (length (A @ ''.'' @ B) - 2) (A @ ''.'' @ B))"
    using assms by (cases A) (simp_all add: nth_append)
  have "two_decimals (A @ ''.'' @ B)"
    unfolding two_decimals_def Let_def using hd body assms(2) by simp
  moreover have "two_decimals (''-'' @ A @ ''.'' @ B)"
    unfolding two_decimals_def Let_def using body by simp
  ultimately show ?thesis ..
qed

lemma toFixed2_two_decimals:
  assumes "\<bar>q\<bar> < 10 ^ 21"
  shows "two_decimals (toFixed2 e (Fin q))"
proof -
  define m where "m = digits (nat \<lfloor>\<bar>q\<bar> * 100 + 1 / 2\<rfloor>)"
  define m' where "m' = (if length m \<le> 2 then replicate (3 - length m) CHR ''0'' @ m else m)"
  have m: "m \<noteq> [] \<and> list_all is_digit m"
    unfolding m_def by (rule digits_digits)
  then have m': "list_all is_digit m' \<and> 3 \<le> length m'"
    by (auto simp: m'_def zero_digit list_all_iff)
  let ?A = "take (length m' - 2) m'" and ?B = "drop (length m' - 2) m'"
  have "list_all is_digit ?A" "?A \<noteq> []" "list_all is_digit ?B" "length ?B = 2"
    using m' by (auto simp: list_all_iff dest: in_set_takeD in_set_dropD)
  then have shape: "two_decimals (?A @ ''.'' @ ?B) \<and> two_decimals (''-'' @ ?A @ ''.'' @ ?B)"
    by (rule two_decimals_shape)
  have "toFixed2 e (Fin q) = (if q < 0 then ''-'' else '''') @ ?A @ ''.'' @ ?B"
    using assms by (simp add: toFixed2_def Let_def m_def m'_def)
  then show ?thesis
    using shape by (cases "q < 0") simp_all
qed

section \<open>Financial Statement\<close>

lemma group_lines_eq:
  "group_lines e balances names (lines, tot)
     = (lines @ map (\<lambda>account. account @ '','' @ toFixed2 e (shown balances account)) names,
        foldl jsadd tot (map (shown balances) names))"
  by (induction names arbitrary: lines tot) (simp_all add: group_lines_def)

lemma seed_balances_eq:
  "seed_balances = map (\<lambda>account. (account, Fin 0)) (concat categories)"
  by code_simp

lemma seed_keys: "fst ` set seed_balances = set (concat categories)"
  by (simp add: seed_balances_eq image_image)

lemma map_of_constant: "k \<in> set ks \<Longrightarrow> map_of (map (\<lambda>k. (k, c)) ks) k = Some c"
  by (induction ks) auto

lemma seed_value: "account \<in> set (concat categories) \<Longrightarrow> map_of seed_balances account = Some (Fin 0)"
  unfolding seed_balances_eq by (rule map_of_constant)

lemma fs_row_keys: "fst ` set (fs_row balances line) = fst ` set balances"
proof (cases "map_of balances (prop_key (field line 1))")
  case None
  then show ?thesis by (simp add: fs_row_def Let_def)
next
  case (Some b)
  then have "prop_key (field line 1) \<in> fst ` set balances"
    using map_of_eq_None_iff [of balances "prop_key (field line 1)"] by auto
  then show ?thesis
    using Some by (auto simp: fs_row_def Let_def dom_update)
qed

lemma fs_row_other:
  "prop_key (field line 1) \<noteq> account \<Longrightarrow> map_of (fs_row balances line) account = map_of balances account"
  by (simp add: fs_row_def Let_def update_conv' split: option.splits)

lemma fs_rows_other:
  "\<forall>line \<in> set rows. prop_key (field line 1) \<noteq> account \<Longrightarrow>
   map_of (foldl fs_row balances rows) account = map_of balances account"
  by (induction rows arbitrary: balances) (simp_all add: fs_row_other)

lemma fs_row_unlisted:
  "prop_key (field line 1) \<notin> fst ` set balances \<Longrightarrow> fs_row balances line = balances"
  by (simp add: fs_row_def Let_def map_of_eq_None_iff [THEN iffD2])

lemma fs_rows_listed_only:
  "foldl fs_row balances rows
     = foldl fs_row balances (filter (\<lambda>line. prop_key (field line 1) \<in> fst ` set balances) rows)"
proof (induction rows arbitrary: balances)
  case Nil
  then show ?case by simp
next
  case (Cons line rows)
  show ?case
  proof (cases "prop_key (field line 1) \<in> fst ` set balances")
    case True
    have "foldl fs_row (fs_row balances line) rows
        = foldl fs_row (fs_row balances line)
            (filter (\<lambda>line'. prop_key (field line' 1) \<in> fst ` set (fs_row balances line)) rows)"
      by (rule Cons.IH)
    then show ?thesis using True by (simp add: fs_row_keys)
  next
    case False
    then show ?thesis using Cons.IH [of balances] by (simp add: fs_row_unlisted)
  qed
qed

lemma toFixed2_zero: "toFixed2 e (Fin 0) = ''0.00''"
  by code_simp

text \<open>
  Claim C3, as the code has it. Whatever the cached files hold, the text of \<open>fs.csv\<close>
  is the fixed frame below: one line for each account of the hardcoded taxonomy, in
  its order, and no line for any other account. The value \<open>shown\<close> on a line is the
  account's balance, with 0 for a falsy one, and the line prints it rounded to two
  decimals. \<open>Total Assets\<close> prints, rounded to two decimals, the sum of the five values
  \<open>shown\<close> as they are before that rounding, added up from 0 in the order of the
  lines, each addition rounded to binary64. An account of the taxonomy that no row
  (of a file other than \<open>fs.csv\<close>) carries is printed with \<open>0.00\<close>, and rows of accounts
  outside the taxonomy change no balance.
\<close>

theorem fs_lists_the_taxonomy:
  "fs_text e cache =
     join_lines
       ([''Basic Financial Statement'', '''', ''Income Statement'']
        @ map (\<lambda>account. account @ '','' @ toFixed2 e (shown (fs_balances cache) account))
            [''Sales Revenue'', ''Cost of Goods Sold'', ''Salaries Expense'', ''Rent Expense'',
             ''Utilities Expense'', ''Interest Expense'', ''Tax Expense'']
        @ [''Net Income,'' @ toFixed2 e
             (jssub (foldl jsadd (Fin 0) (map (shown (fs_balances cache)) revenues))
                    (foldl jsadd (Fin 0) (map (shown (fs_balances cache)) expenses))),
           '''', ''Balance Sheet'', ''Assets'']
        @ map (\<lambda>account. account @ '','' @ toFixed2 e (shown (fs_balances cache) account))
            [''Cash'', ''Accounts Receivable'', ''Inventory'', ''Fixed Assets'', ''Prepaid Expenses'']
        @ [''Total Assets,'' @ toFixed2 e
             (jsadd (jsadd (jsadd (jsadd (jsadd (Fin 0)
                (shown (fs_balances cache) ''Cash''))
                (shown (fs_balances cache) ''Accounts Receivable''))
                (shown (fs_balances cache) ''Inventory''))
                (shown (fs_balances cache) ''Fixed Assets''))
                (shown (fs_balances cache) ''Prepaid Expenses'')),
           '''', ''Liabilities'']
        @ map (\<lambda>account. account @ '','' @ toFixed2 e (shown (fs_balances cache) account))
            [''Accounts Payable'', ''Loan Payable'', ''Sales Tax Payable'', ''Accrued Liabilities'',
             ''Unearned Revenue'', ''Dividends Payable'']
        @ [''Total Liabilities,'' @ toFixed2 e
             (foldl jsadd (Fin 0) (map (shown (fs_balances cache)) liabilities)),
           '''', ''Equity'']
        @ map (\<lambda>account. account @ '','' @ toFixed2 e (shown (fs_balances cache) account))
            [''Common Stock'', ''Retained Earnings'']
        @ [''Retained Earnings (Net Income),'' @ toFixed2 e
             (jssub (foldl jsadd (Fin 0) (map (shown (fs_balances cache)) revenues))
                    (foldl jsadd (Fin 0) (map (shown (fs_balances cache)) expenses))),
           ''Total Equity,'' @ toFixed2 e
             (jsadd (foldl jsadd (Fin 0) (map (shown (fs_balances cache)) equity))
                (jssub (foldl jsadd (Fin 0) (map (shown (fs_balances cache)) revenues))
                       (foldl jsadd (Fin 0) (map (shown (fs_balances cache)) expenses)))),
           '''',
           ''Assets = Liabilities + Equity, ''
             @ toFixed2 e (foldl jsadd (Fin 0) (map (shown (fs_balances cache)) assets))
             @ '' = ''
             @ toFixed2 e
                 (jsadd (foldl jsadd (Fin 0) (map (shown (fs_balances cache)) liabilities))
                    (jsadd (foldl jsadd (Fin 0) (map (shown (fs_balances cache)) equity))
                       (jssub (foldl jsadd (Fin 0) (map (shown (fs_balances cache)) revenues))
                              (foldl jsadd (Fin 0) (map (shown (fs_balances cache)) expenses)))))])
   \<and> (account \<in> set (concat categories)
        \<and> (\<forall>line \<in> set (fs_rows cache). prop_key (field line 1) \<noteq> account)
      \<longrightarrow> account @ '','' @ toFixed2 e (shown (fs_balances cache) account)
            = account @ '',0.00'')
   \<and> fs_balances cache
       = foldl fs_row seed_balances
           (filter (\<lambda>line. prop_key (field line 1) \<in> set (concat categories)) (fs_rows cache))"
proof (intro conjI impI)
  show "fs_text e cache = join_lines
       ([''Basic Financial Statement'', '''', ''Income Statement'']
        @ map (\<lambda>account. account @ '','' @ toFixed2 e (shown (fs_balances cache) account))
            [''Sales Revenue'', ''Cost of Goods Sold'', ''Salaries Expense'', ''Rent Expense'',
             ''Utilities Expense'', ''Interest Expense'', ''Tax Expense'']
        @ [''Net Income,'' @ toFixed2 e
             (jssub (foldl jsadd (Fin 0) (map (shown (fs_balances cache)) revenues))
                    (foldl jsadd (Fin 0) (map (shown (fs_balances cache)) expenses))),
           '''', ''Balance Sheet'', ''Assets'']
        @ map (\<lambda>account. account @ '','' @ toFixed2 e (shown (fs_balances cache) account))
            [''Cash'', ''Accounts Receivable'', ''Inventory'', ''Fixed Assets'', ''Prepaid Expenses'']
        @ [''Total Assets,'' @ toFixed2 e
             (jsadd (jsadd (jsadd (jsadd (jsadd (Fin 0)
                (shown (fs_balances cache) ''Cash''))
                (shown (fs_balances cache) ''Accounts Receivable''))
                (shown (fs_balances cache) ''Inventory''))
                (shown (fs_balances cache) ''Fixed Assets''))
                (shown (fs_balances cache) ''Prepaid Expenses'')),
           '''', ''Liabilities'']
        @ map (\<lambda>account. account @ '','' @ toFixed2 e (shown (fs_balances cache) account))
            [''Accounts Payable'', ''Loan Payable'', ''Sales Tax Payable'', ''Accrued Liabilities'',
             ''Unearned Revenue'', ''Dividends Payable'']
        @ [''Total Liabilities,'' @ toFixed2 e
             (foldl jsadd (Fin 0) (map (shown (fs_balances cache)) liabilities)),
           '''', ''Equity'']
        @ map (\<lambda>account. account @ '','' @ toFixed2 e (shown (fs_balances cache) account))
            [''Common Stock'', ''Retained Earnings'']
        @ [''Retained Earnings (Net Income),'' @ toFixed2 e
             (jssub (foldl jsadd (Fin 0) (map (shown (fs_balances cache)) revenues))
                    (foldl jsadd (Fin 0) (map (shown (fs_balances cache)) expenses))),
           ''Total Equity,'' @ toFixed2 e
             (jsadd (foldl jsadd (Fin 0) (map (shown (fs_balances cache)) equity))
                (jssub (foldl jsadd (Fin 0) (map (shown (fs_balances cache)) revenues))
                       (foldl jsadd (Fin 0) (map (shown (fs_balances cache)) expenses)))),
           '''',
           ''Assets = Liabilities + Equity, ''
             @ toFixed2 e (foldl jsadd (Fin 0) (map (shown (fs_balances cache)) assets))
             @ '' = ''
             @ toFixed2 e
                 (jsadd (foldl jsadd (Fin 0) (map (shown (fs_balances cache)) liabilities))
                    (jsadd (foldl jsadd (Fin 0) (map (shown (fs_balances cache)) equity))
                       (jssub (foldl jsadd (Fin 0) (map (shown (fs_balances cache)) revenues))
                              (foldl jsadd (Fin 0) (map (shown (fs_balances cache)) expenses)))))])"
    unfolding fs_text_def fs_output_def Let_def group_lines_eq prod.case
    by (simp add: revenues_def expenses_def assets_def liabilities_def equity_def)
next
  assume a: "account \<in> set (concat categories)
    \<and> (\<forall>line \<in> set (fs_rows cache). prop_key (field line 1) \<noteq> account)"
  then have "map_of (fs_balances cache) account = Some (Fin 0)"
    by (simp add: fs_balances_def fs_rows_other seed_value)
  then have "shown (fs_balances cache) account = Fin 0"
    by (simp add: shown_def falsy_def)
  then show "account @ '','' @ toFixed2 e (shown (fs_balances cache) account) = account @ '',0.00''"
    by (simp add: toFixed2_zero)
next
  show "fs_balances cache
       = foldl fs_row seed_balances
           (filter (\<lambda>line. prop_key (field line 1) \<in> set (concat categories)) (fs_rows cache))"
    unfolding fs_balances_def seed_keys [symmetric] by (rule fs_rows_listed_only)
qed

theorem fs_lists_the_taxonomy_witness:
  "''Inventory'' \<in> set (concat categories)
   \<and> map (\<lambda>line. prop_key (field line 1))
        (fs_rows [(''a.csv'', [[''2023-01-01'', ''Cash'', '''', ''100'', ''0''],
                               [''2023-01-15'', ''Suspense'', '''', ''7'', ''0''],
                               [''2023-02-01'', ''Sales Revenue'', '''', ''0'', ''100'']])])
       = [''Cash'', ''Suspense'', ''Sales Revenue'']
   \<and> ''Inventory'' @ '','' @ toFixed2 env_utc
        (shown (fs_balances [(''a.csv'', [[''2023-01-01'', ''Cash'', '''', ''100'', ''0''],
                               [''2023-01-15'', ''Suspense'', '''', ''7'', ''0''],
                               [''2023-02-01'', ''Sales Revenue'', '''', ''0'', ''100'']])])
           ''Inventory'')
       = ''Inventory,0.00''
   \<and> fs_balances [(''a.csv'', [[''2023-01-01'', ''Cash'', '''', ''100'', ''0''],
                               [''2023-01-15'', ''Suspense'', '''', ''7'', ''0''],
                               [''2023-02-01'', ''Sales Revenue'', '''', ''0'', ''100'']])]
       = foldl fs_row seed_balances
           [[''2023-01-01'', ''Cash'', '''', ''100'', ''0''],
            [''2023-02-01'', ''Sales Revenue'', '''', ''0'', ''100'']]"
proof -
  let ?c = "[(''a.csv'', [[''2023-01-01'', ''Cash'', '''', ''100'', ''0''],
                               [''2023-01-15'', ''Suspense'', '''', ''7'', ''0''],
                               [''2023-02-01'', ''Sales Revenue'', '''', ''0'', ''100'']])]"
  have listed: "''Inventory'' \<in> set (concat categories)"
    by code_simp
  have keys: "map (\<lambda>line. prop_key (field line 1)) (fs_rows ?c)
      = [''Cash'', ''Suspense'', ''Sales Revenue'']"
    by code_simp
  have "\<forall>k \<in> set (map (\<lambda>line. prop_key (field line 1)) (fs_rows ?c)). k \<noteq> ''Inventory''"
    unfolding keys by simp
  then have absent: "\<forall>line \<in> set (fs_rows ?c). prop_key (field line 1) \<noteq> ''Inventory''"
    by simp
  have kept: "filter (\<lambda>line. prop_key (field line 1) \<in> set (concat categories)) (fs_rows ?c)
      = [[''2023-01-01'', ''Cash'', '''', ''100'', ''0''],
         [''2023-02-01'', ''Sales Revenue'', '''', ''0'', ''100'']]"
    by code_simp
  note frame = fs_lists_the_taxonomy [of env_utc ?c "''Inventory''"]
  have zero: "''Inventory'' @ '','' @ toFixed2 env_utc (shown (fs_balances ?c) ''Inventory'')
      = ''Inventory,0.00''"
    using frame [THEN conjunct2, THEN conjunct1, THEN mp, OF conjI [OF listed absent]] by simp
  have "fs_balances ?c
      = foldl fs_row seed_balances
          (filter (\<lambda>line. prop_key (field line 1) \<in> set (concat categories)) (fs_rows ?c))"
    using frame [THEN conjunct2, THEN conjunct2] .
  then have ignored: "fs_balances ?c
      = foldl fs_row seed_balances
          [[''2023-01-01'', ''Cash'', '''', ''100'', ''0''],
           [''2023-02-01'', ''Sales Revenue'', '''', ''0'', ''100'']]"
    unfolding kept .
  show ?thesis
    using listed keys zero ignored by (intro conjI)
qed

text \<open>
  The claim as the specification states it fails: \<open>Total Assets\<close> is not the sum of
  the five amounts printed above it. The total is added up from the balances as they
  are, and each line is rounded to two decimals on its own: with 0.004 in \<open>Cash\<close> and
  0.004 in \<open>Inventory\<close> the five lines print \<open>0.00\<close> and the total prints \<open>0.01\<close>.
\<close>

theorem total_assets_is_not_the_sum_of_the_lines:
  "take 7 (drop 13 (fs_output env_utc
      (fs_balances [(''a.csv'', [[''2023-01-01'', ''Cash'', '''', ''0.004'', ''0''],
                                 [''2023-01-02'', ''Inventory'', '''', ''0.004'', ''0'']])])))
     = [''Assets'', ''Cash,0.00'', ''Accounts Receivable,0.00'', ''Inventory,0.00'',
        ''Fixed Assets,0.00'', ''Prepaid Expenses,0.00'', ''Total Assets,0.01'']"
  by code_simp

section \<open>Yearly Cash Flow\<close>














section \<open>Account Balances\<close>

lemma set_first_seen: "set (first_seen xs) = set xs"
  by (induction xs) auto

lemma distinct_first_seen: "distinct (first_seen xs)"
  by (induction xs) (auto simp: set_first_seen)

lemma first_seen_snoc:
  "first_seen (xs @ [x]) = (if x \<in> set xs then first_seen xs else first_seen xs @ [x])"
  by (induction xs) auto

lemma update_fresh: "k \<notin> fst ` set al \<Longrightarrow> AList.update k v al = al @ [(k, v)]"
  by (induction al) auto

lemma update_twice: "AList.update k v (AList.update k u al) = AList.update k v al"
  by (induction al) auto

lemma update_tabulated:
  "k \<in> set ks \<Longrightarrow> distinct ks \<Longrightarrow>
   AList.update k v (map (\<lambda>a. (a, h a)) ks) = map (\<lambda>a. (a, if a = k then v else h a)) ks"
  by (induction ks) auto

lemma map_of_tabulated: "k \<in> set ks \<Longrightarrow> map_of (map (\<lambda>a. (a, h a)) ks) k = Some (h k)"
  by (induction ks) auto

lemma accumulate_fresh:
  assumes "k \<notin> set object_prototype_keys" and "k \<notin> fst ` set obj"
  shows "accumulate obj k amount = obj @ [(k, Number (jsadd (Fin 0) amount))]"
proof -
  have np: "k \<noteq> ''__proto__''"
    using assms(1) proto_is_inherited by auto
  have none: "map_of obj k = None"
    using assms(2) by (simp add: map_of_eq_None_iff)
  then have g: "get_prop obj k = Undefined"
    using assms(1) by (simp add: get_prop_def)
  have "accumulate obj k amount
      = AList.update k (Number (jsadd (Fin 0) amount)) (AList.update k (Number (Fin 0)) obj)"
    using np g by (simp add: accumulate_def Let_def set_prop_def get_prop_def update_conv')
  then have "accumulate obj k amount = AList.update k (Number (jsadd (Fin 0) amount)) obj"
    by (simp only: update_twice)
  then show ?thesis
    using update_fresh [OF assms(2)] by simp
qed

lemma accumulate_present:
  assumes "map_of obj k = Some (Number b)" and "k \<noteq> ''__proto__''"
  shows "accumulate obj k amount
         = AList.update k (Number (jsadd (if falsy b then Fin 0 else b) amount)) obj"
  using assms
  by (simp add: accumulate_def Let_def set_prop_def get_prop_def update_conv' update_twice)

lemma jsadd_number: "jsadd x y \<noteq> NaN \<Longrightarrow> x \<noteq> NaN"
  by (cases x) auto

lemma number_or_zero: "b \<noteq> NaN \<Longrightarrow> (if falsy b then Fin 0 else b) = b"
  by (auto simp: falsy_def)

lemma spec_balance_snoc:
  "spec_balance (rows @ [line]) account
     = (if account_of line = account then jsadd (spec_balance rows account) (row_amount line)
        else spec_balance rows account)"
  by (simp add: spec_balance_def)

lemma balances_tabulated:
  assumes "\<forall>line \<in> set rows. account_of line \<notin> set object_prototype_keys"
    and "\<forall>n < length rows. spec_balance (take n rows) (account_of (rows ! n)) \<noteq> NaN"
  shows "foldl accounts_row [] rows
         = map (\<lambda>account. (account, Number (spec_balance rows account)))
             (first_seen (map account_of rows))"
  using assms
proof (induction rows rule: rev_induct)
  case Nil
  then show ?case by simp
next
  case (snoc line rows)
  let ?k = "account_of line"
  let ?obj = "map (\<lambda>account. (account, Number (spec_balance rows account)))
                (first_seen (map account_of rows))"
  have "spec_balance (take n rows) (account_of (rows ! n)) \<noteq> NaN" if "n < length rows" for n
    using snoc.prems(2) [rule_format, of n] that by (simp add: nth_append)
  then have IH: "foldl accounts_row [] rows = ?obj"
    using snoc by simp
  have number: "spec_balance rows ?k \<noteq> NaN"
    using snoc.prems(2) [rule_format, of "length rows"] by simp
  have notin: "?k \<notin> set object_prototype_keys"
    using snoc.prems(1) by simp
  then have np: "?k \<noteq> ''__proto__''"
    using proto_is_inherited by auto
  have step: "foldl accounts_row [] (rows @ [line]) = accumulate ?obj ?k (row_amount line)"
    by (simp add: IH accounts_row_def account_of_def)
  show ?case
  proof (cases "?k \<in> set (map account_of rows)")
    case True
    then have mem: "?k \<in> set (first_seen (map account_of rows))"
      by (simp add: set_first_seen)
    have look: "map_of ?obj ?k = Some (Number (spec_balance rows ?k))"
      using mem by (rule map_of_tabulated)
    have "accumulate ?obj ?k (row_amount line)
        = AList.update ?k (Number (jsadd (spec_balance rows ?k) (row_amount line))) ?obj"
      using accumulate_present [OF look np] by (simp add: number_or_zero [OF number])
    also have "\<dots> = map (\<lambda>account. (account,
          if account = ?k then Number (jsadd (spec_balance rows ?k) (row_amount line))
          else Number (spec_balance rows account))) (first_seen (map account_of rows))"
      using mem by (rule update_tabulated) (rule distinct_first_seen)
    also have "\<dots> = map (\<lambda>account. (account, Number (spec_balance (rows @ [line]) account)))
          (first_seen (map account_of (rows @ [line])))"
      using True by (auto simp: first_seen_snoc spec_balance_snoc)
    finally show ?thesis using step by simp
  next
    case False
    then have fresh: "?k \<notin> fst ` set ?obj"
      by (simp add: image_image set_first_seen)
    have "accumulate ?obj ?k (row_amount line) = ?obj @ [(?k, Number (jsadd (Fin 0) (row_amount line)))]"
      using notin fresh by (rule accumulate_fresh)
    moreover have "filter (\<lambda>l. account_of l = ?k) rows = []"
      unfolding filter_empty_conv using False by (metis imageI list.set_map)
    then have "spec_balance rows ?k = Fin 0"
      by (simp add: spec_balance_def)
    moreover have "spec_balance (rows @ [line]) account = spec_balance rows account"
      if "account \<in> set (map account_of rows)" for account
      using that False by (auto simp: spec_balance_snoc)
    ultimately show ?thesis
      using step False by (simp add: first_seen_snoc spec_balance_snoc set_first_seen)
  qed
qed

lemma insort_key_tabulated:
  "insort_key (\<lambda>p. f (fst p)) (a, h a) (map (\<lambda>a. (a, h a)) ks)
     = map (\<lambda>a. (a, h a)) (insort_key f a ks)"
  by (induction ks) auto

lemma sort_key_tabulated:
  "sort_key (\<lambda>p. f (fst p)) (map (\<lambda>a. (a, h a)) ks) = map (\<lambda>a. (a, h a)) (sort_key f ks)"
  by (induction ks) (simp_all add: insort_key_tabulated)

lemma entries_tabulated:
  "entries (map (\<lambda>a. (a, h a)) ks) = map (\<lambda>a. (a, h a)) (key_order ks)"
  by (simp add: entries_def key_order_def filter_map comp_def sort_key_tabulated)

lemma balance_lines_numbers:
  "balance_lines e (map (\<lambda>a. (a, Number (h a))) ks) lines
     = Inr (lines @ map (\<lambda>a. a @ '','' @ toFixed2 e (h a)) ks)"
  by (induction ks arbitrary: lines) simp_all

lemma key_order_plain: "\<forall>k \<in> set ks. \<not> is_array_index k \<Longrightarrow> key_order ks = ks"
  by (simp add: key_order_def filter_empty_conv [THEN iffD2] filter_id_conv [THEN iffD2])


lemma accounts_text_rows:
  "rows_of cache' = rows_of cache \<Longrightarrow> accounts_text e cache' = accounts_text e cache"
  by (simp add: accounts_text_def accountBalances_def)

text \<open>
  Claim C1, as the code has it. Let no row carry an account that names a member of
  \<open>Object.prototype\<close>, and let no row find the running sum of its account equal to
  NaN. Then the text of \<open>accounts.csv\<close> is the header and one row for each distinct
  account key of the rows (a missing account field is the key \<open>undefined\<close>); the
  balance of a row is the sum of debit minus credit over the rows of its account,
  added up from 0 in the order of the rows, each sum rounded to binary64, and printed
  by \<open>toFixed(2)\<close>, which gives exactly two decimals for a finite sum of a magnitude
  below \<open>10^21\<close>. The text depends on the rows in the order of the cache only, not on
  how they are split into files. The rows are in the order of first appearance of
  their accounts, except that accounts that are array indices (decimal numerals of
  integers below \<open>2^32 - 1\<close>) come first, in ascending numeric order: where no account
  is one, the order is that of first appearance.
\<close>

theorem account_balances:
  assumes "\<forall>line \<in> set (rows_of cache). account_of line \<notin> set object_prototype_keys"
    and "\<forall>n < length (rows_of cache).
           spec_balance (take n (rows_of cache)) (account_of (rows_of cache ! n)) \<noteq> NaN"
  shows "accounts_text e cache =
           Inr (join_lines
             (''Account,Balance'' #
              map (\<lambda>account. account @ '','' @ toFixed2 e (spec_balance (rows_of cache) account))
                (key_order (first_seen (map account_of (rows_of cache))))))
       \<and> (rows_of cache' = rows_of cache \<longrightarrow> accounts_text e cache' = accounts_text e cache)
       \<and> ((\<forall>line \<in> set (rows_of cache). \<not> is_array_index (account_of line)) \<longrightarrow>
            key_order (first_seen (map account_of (rows_of cache)))
              = first_seen (map account_of (rows_of cache)))
       \<and> (spec_balance (rows_of cache) account = Fin q \<and> \<bar>q\<bar> < 10 ^ 21 \<longrightarrow>
            two_decimals (toFixed2 e (spec_balance (rows_of cache) account)))"
proof (intro conjI impI)
  have "accountBalances cache
      = map (\<lambda>account. (account, Number (spec_balance (rows_of cache) account)))
          (first_seen (map account_of (rows_of cache)))"
    unfolding accountBalances_def using assms by (rule balances_tabulated)
  then show "accounts_text e cache =
           Inr (join_lines
             (''Account,Balance'' #
              map (\<lambda>account. account @ '','' @ toFixed2 e (spec_balance (rows_of cache) account))
                (key_order (first_seen (map account_of (rows_of cache))))))"
    by (simp add: accounts_text_def entries_tabulated balance_lines_numbers)
next
  assume "rows_of cache' = rows_of cache"
  then show "accounts_text e cache' = accounts_text e cache"
    by (rule accounts_text_rows)
next
  assume "\<forall>line \<in> set (rows_of cache). \<not> is_array_index (account_of line)"
  then show "key_order (first_seen (map account_of (rows_of cache)))
      = first_seen (map account_of (rows_of cache))"
    by (intro key_order_plain) (simp add: set_first_seen)
next
  assume "spec_balance (rows_of cache) account = Fin q \<and> \<bar>q\<bar> < 10 ^ 21"
  then show "two_decimals (toFixed2 e (spec_balance (rows_of cache) account))"
    by (simp add: toFixed2_two_decimals)
qed

theorem account_balances_witness:
  "map account_of (rows_of
      [(''a.csv'', [[''2023-01-01'', ''Cash'', '''', ''100'', ''0''],
                    [''2023-02-01'', ''Sales Revenue'', '''', ''0'', ''100'']]),
       (''b.csv'', [[''2023-03-01'', ''Cash'', ''refund'', ''0'', ''25.5'']])])
     = [''Cash'', ''Sales Revenue'', ''Cash'']
   \<and> map (\<lambda>n. spec_balance
             (take n (rows_of
                [(''a.csv'', [[''2023-01-01'', ''Cash'', '''', ''100'', ''0''],
                              [''2023-02-01'', ''Sales Revenue'', '''', ''0'', ''100'']]),
                 (''b.csv'', [[''2023-03-01'', ''Cash'', ''refund'', ''0'', ''25.5'']])]))
             ([''Cash'', ''Sales Revenue'', ''Cash''] ! n)) [0, 1, 2]
     = [Fin 0, Fin 0, Fin 100]
   \<and> accounts_text env_utc
      [(''a.csv'', [[''2023-01-01'', ''Cash'', '''', ''100'', ''0''],
                    [''2023-02-01'', ''Sales Revenue'', '''', ''0'', ''100'']]),
       (''b.csv'', [[''2023-03-01'', ''Cash'', ''refund'', ''0'', ''25.5'']])]
     = Inr ''Account,Balance\<newline>Cash,74.50\<newline>Sales Revenue,-100.00''
   \<and> accounts_text env_utc
      [(''a.csv'', [[''2023-01-01'', ''Cash'', '''', ''100'', ''0'']]),
       (''b.csv'', [[''2023-02-01'', ''Sales Revenue'', '''', ''0'', ''100''],
                    [''2023-03-01'', ''Cash'', ''refund'', ''0'', ''25.5'']])]
     = Inr ''Account,Balance\<newline>Cash,74.50\<newline>Sales Revenue,-100.00''
   \<and> two_decimals (toFixed2 env_utc (Fin (149 / 2)))"
proof -
  let ?c = "[(''a.csv'', [[''2023-01-01'', ''Cash'', '''', ''100'', ''0''],
                    [''2023-02-01'', ''Sales Revenue'', '''', ''0'', ''100'']]),
       (''b.csv'', [[''2023-03-01'', ''Cash'', ''refund'', ''0'', ''25.5'']])]"
  let ?c' = "[(''a.csv'', [[''2023-01-01'', ''Cash'', '''', ''100'', ''0'']]),
       (''b.csv'', [[''2023-02-01'', ''Sales Revenue'', '''', ''0'', ''100''],
                    [''2023-03-01'', ''Cash'', ''refund'', ''0'', ''25.5'']])]"
  have rows: "rows_of ?c = [[''2023-01-01'', ''Cash'', '''', ''100'', ''0''],
      [''2023-02-01'', ''Sales Revenue'', '''', ''0'', ''100''],
      [''2023-03-01'', ''Cash'', ''refund'', ''0'', ''25.5'']]"
    by code_simp
  have rows': "rows_of ?c' = rows_of ?c"
    by code_simp
  have keys: "map account_of (rows_of ?c) = [''Cash'', ''Sales Revenue'', ''Cash'']"
    unfolding rows by (simp add: account_of_def prop_key_def field_def)
  have sums: "map (\<lambda>n. spec_balance (take n (rows_of ?c))
                 ([''Cash'', ''Sales Revenue'', ''Cash''] ! n)) [0, 1, 2]
      = [Fin 0, Fin 0, Fin 100]"
    by code_simp
  have h1: "\<forall>line \<in> set (rows_of ?c). account_of line \<notin> set object_prototype_keys"
  proof -
    have "\<forall>k \<in> set (map account_of (rows_of ?c)). k \<notin> set object_prototype_keys"
      unfolding keys by (simp add: object_prototype_keys_def)
    then show ?thesis by simp
  qed
  have h2: "\<forall>n < length (rows_of ?c).
      spec_balance (take n (rows_of ?c)) (account_of (rows_of ?c ! n)) \<noteq> NaN"
  proof (intro allI impI)
    fix n assume less: "n < length (rows_of ?c)"
    then have n: "n \<in> set [0, 1, 2]"
      unfolding rows by auto
    have "account_of (rows_of ?c ! n) = map account_of (rows_of ?c) ! n"
      using less by simp
    then have key: "account_of (rows_of ?c ! n) = [''Cash'', ''Sales Revenue'', ''Cash''] ! n"
      unfolding keys .
    have "\<forall>x \<in> set (map (\<lambda>n. spec_balance (take n (rows_of ?c))
                 ([''Cash'', ''Sales Revenue'', ''Cash''] ! n)) [0, 1, 2]). x \<noteq> NaN"
      unfolding sums by simp
    then have "spec_balance (take n (rows_of ?c)) ([''Cash'', ''Sales Revenue'', ''Cash''] ! n) \<noteq> NaN"
      using n by (simp only: set_map ball_simps) blast
    then show "spec_balance (take n (rows_of ?c)) (account_of (rows_of ?c ! n)) \<noteq> NaN"
      unfolding key .
  qed
  have printed: "join_lines
             (''Account,Balance'' #
              map (\<lambda>account. account @ '','' @ toFixed2 env_utc (spec_balance (rows_of ?c) account))
                (key_order (first_seen (map account_of (rows_of ?c)))))
      = ''Account,Balance\<newline>Cash,74.50\<newline>Sales Revenue,-100.00''"
    by code_simp
  have bal: "spec_balance (rows_of ?c) ''Cash'' = Fin (149 / 2) \<and> \<bar>149 / 2 :: rat\<bar> < 10 ^ 21"
    by code_simp
  note t = account_balances [OF h1 h2, of env_utc ?c' "''Cash''" "149 / 2"]
  have first: "accounts_text env_utc ?c
      = Inr ''Account,Balance\<newline>Cash,74.50\<newline>Sales Revenue,-100.00''"
    using t [THEN conjunct1] unfolding printed .
  have second: "accounts_text env_utc ?c'
      = Inr ''Account,Balance\<newline>Cash,74.50\<newline>Sales Revenue,-100.00''"
    using t [THEN conjunct2, THEN conjunct1, THEN mp, OF rows'] unfolding first .
  have shape: "two_decimals (toFixed2 env_utc (Fin (149 / 2)))"
    using t [THEN conjunct2, THEN conjunct2, THEN conjunct2, THEN mp, OF bal]
    unfolding bal [THEN conjunct1] .
  show ?thesis
    using keys sums first second shape by (intro conjI)
qed

text \<open>
  The claim as the specification states it fails. After an unparseable amount the
  balance is NaN, and the next row of the account starts again from 0: the balance
  printed is 100.00, where the sum of debit minus credit over the three rows is NaN
  (or 150 if the unparseable debit counted as 0). And accounts with numeric names
  are not printed in the order of first appearance.
\<close>

theorem balance_is_not_the_sum:
  "accounts_text env_utc
     [(''a.csv'', [[''2023-01-01'', ''Cash'', '''', ''50'', ''0''],
                   [''2023-01-02'', ''Cash'', '''', ''abc'', ''0''],
                   [''2023-01-03'', ''Cash'', '''', ''100'', ''0'']])]
     = Inr ''Account,Balance\<newline>Cash,100.00''
   \<and> toFixed2 env_utc (spec_balance
         [[''2023-01-01'', ''Cash'', '''', ''50'', ''0''],
          [''2023-01-02'', ''Cash'', '''', ''abc'', ''0''],
          [''2023-01-03'', ''Cash'', '''', ''100'', ''0'']] ''Cash'') = ''NaN''
   \<and> toFixed2 env_utc (spec_balance
         [[''2023-01-01'', ''Cash'', '''', ''50'', ''0''],
          [''2023-01-02'', ''Cash'', '''', ''0'', ''0''],
          [''2023-01-03'', ''Cash'', '''', ''100'', ''0'']] ''Cash'') = ''150.00''
   \<and> accounts_text env_utc
     [(''a.csv'', [[''2023-01-01'', ''2000'', '''', ''1'', ''0''],
                   [''2023-01-02'', ''1000'', '''', ''2'', ''0'']])]
     = Inr ''Account,Balance\<newline>1000,2.00\<newline>2000,1.00''"
  by code_simp

section \<open>Running the pipeline twice\<close>

lemma run_frame: "tmp (fst (generateAllReports e order ms w)) = tmp w"
  by (simp add: generateAllReports_def accounts_def yearly_def fs_def Let_def
      split: sum.splits prod.splits)

lemma run_cache: "parsedFiles (fst (generateAllReports e order ms w)) = loadFiles (tmp w) order"
  by (simp add: generateAllReports_def accounts_def yearly_def fs_def Let_def
      split: sum.splits prod.splits)

lemma run_out:
  "out (fst (generateAllReports e order ms w))
     = AList.update ''fs.csv'' (fs_text e (loadFiles (tmp w) order))
         ((case yearly_text e (loadFiles (tmp w) order) of
             Inr text \<Rightarrow> AList.update ''yearly.csv'' text | Inl err \<Rightarrow> (\<lambda>files. files))
            ((case accounts_text e (loadFiles (tmp w) order) of
                Inr text \<Rightarrow> AList.update ''accounts.csv'' text | Inl err \<Rightarrow> (\<lambda>files. files))
               (out w)))"
  by (simp add: generateAllReports_def accounts_def yearly_def fs_def Let_def
      split: sum.splits prod.splits)

lemma run_error:
  "snd (generateAllReports e order ms w)
     = (case accounts_text e (loadFiles (tmp w) order) of
          Inl err \<Rightarrow> Some err
        | Inr text \<Rightarrow> (case yearly_text e (loadFiles (tmp w) order) of
                         Inl err \<Rightarrow> Some err | Inr text \<Rightarrow> None))"
  by (simp add: generateAllReports_def accounts_def yearly_def fs_def Let_def
      split: sum.splits prod.splits)

lemma update_same: "map_of al k = Some v \<Longrightarrow> AList.update k v al = al"
  by (induction al) auto

text \<open>
  Claim C9, as the code has it. A run leaves \<open>tmp\<close> as it was and rebuilds the cache
  from it, so a second run in which the reads of the source files complete in the
  same order as in the first writes the same three texts: the files of \<open>out\<close> are the
  same after the second run as after the first, whatever the service held before and
  whatever the two runs measured as durations, and the second run raises what the
  first raised.
\<close>

theorem rerun_same_order:
  "out (fst (generateAllReports e order ms2 (fst (generateAllReports e order ms1 w))))
     = out (fst (generateAllReports e order ms1 w))
   \<and> snd (generateAllReports e order ms2 (fst (generateAllReports e order ms1 w)))
     = snd (generateAllReports e order ms1 w)
   \<and> tmp (fst (generateAllReports e order ms1 w)) = tmp w"
proof (intro conjI)
  let ?w1 = "fst (generateAllReports e order ms1 w)"
  show frame: "tmp ?w1 = tmp w"
    by (rule run_frame)
  show "snd (generateAllReports e order ms2 ?w1) = snd (generateAllReports e order ms1 w)"
    unfolding run_error [of e order ms2 ?w1] frame
    unfolding run_error [of e order ms1 w] by (rule refl)
  show "out (fst (generateAllReports e order ms2 ?w1)) = out ?w1"
    unfolding run_out [of e order ms2 ?w1] frame
    unfolding run_out [of e order ms1 w]
    by (cases "accounts_text e (loadFiles (tmp w) order)";
        cases "yearly_text e (loadFiles (tmp w) order)")
       (simp_all add: update_same update_conv')
qed

theorem rerun_same_order_witness:
  "out (fst (generateAllReports env_utc [1, 0] \<lparr>accounts_ms = 3, yearly_ms = 4, fs_ms = 5\<rparr>
         (fst (generateAllReports env_utc [1, 0] \<lparr>accounts_ms = 12, yearly_ms = 7, fs_ms = 31\<rparr>
            \<lparr>states = idle, parsedFiles = [],
             tmp = [(''a.csv'', ''2023-01-01,Bank,,1,0\<newline>''), (''b.csv'', ''2023-01-01,Cash,,2,0\<newline>'')],
             out = []\<rparr>))))
     = out (fst (generateAllReports env_utc [1, 0] \<lparr>accounts_ms = 12, yearly_ms = 7, fs_ms = 31\<rparr>
            \<lparr>states = idle, parsedFiles = [],
             tmp = [(''a.csv'', ''2023-01-01,Bank,,1,0\<newline>''), (''b.csv'', ''2023-01-01,Cash,,2,0\<newline>'')],
             out = []\<rparr>))
   \<and> map_of (out (fst (generateAllReports env_utc [1, 0] \<lparr>accounts_ms = 12, yearly_ms = 7, fs_ms = 31\<rparr>
            \<lparr>states = idle, parsedFiles = [],
             tmp = [(''a.csv'', ''2023-01-01,Bank,,1,0\<newline>''), (''b.csv'', ''2023-01-01,Cash,,2,0\<newline>'')],
             out = []\<rparr>))) ''accounts.csv''
     = Some ''Account,Balance\<newline>Cash,2.00\<newline>Bank,1.00''"
proof -
  let ?w = "\<lparr>states = idle, parsedFiles = [],
             tmp = [(''a.csv'', ''2023-01-01,Bank,,1,0\<newline>''), (''b.csv'', ''2023-01-01,Cash,,2,0\<newline>'')],
             out = []\<rparr>"
  have a: "accounts_text env_utc (loadFiles (tmp ?w) [1, 0])
      = Inr ''Account,Balance\<newline>Cash,2.00\<newline>Bank,1.00''"
    by code_simp
  have same: "out (fst (generateAllReports env_utc [1, 0] \<lparr>accounts_ms = 3, yearly_ms = 4, fs_ms = 5\<rparr>
         (fst (generateAllReports env_utc [1, 0] \<lparr>accounts_ms = 12, yearly_ms = 7, fs_ms = 31\<rparr> ?w))))
     = out (fst (generateAllReports env_utc [1, 0] \<lparr>accounts_ms = 12, yearly_ms = 7, fs_ms = 31\<rparr> ?w))"
    using rerun_same_order [of env_utc "[1, 0]" "\<lparr>accounts_ms = 3, yearly_ms = 4, fs_ms = 5\<rparr>"
        "\<lparr>accounts_ms = 12, yearly_ms = 7, fs_ms = 31\<rparr>" ?w, THEN conjunct1] .
  have written: "map_of (out (fst (generateAllReports env_utc [1, 0]
        \<lparr>accounts_ms = 12, yearly_ms = 7, fs_ms = 31\<rparr> ?w))) ''accounts.csv''
      = Some ''Account,Balance\<newline>Cash,2.00\<newline>Bank,1.00''"
    using run_writes [of env_utc "[1, 0]" "\<lparr>accounts_ms = 12, yearly_ms = 7, fs_ms = 31\<rparr>" ?w,
        THEN conjunct1]
    unfolding a by simp
  show ?thesis
    using same written by (intro conjI)
qed

text \<open>
  The claim as the specification states it fails when the reads complete in another
  order in the second run: the files enter the cache in the order in which their
  reads complete, and \<open>accounts.csv\<close> lists the accounts in the order of the cache.
\<close>

theorem rerun_other_order:
  "completion_order [(''a.csv'', ''2023-01-01,Bank,,1,0\<newline>''), (''b.csv'', ''2023-01-01,Cash,,2,0\<newline>'')] [0, 1]
   \<and> completion_order [(''a.csv'', ''2023-01-01,Bank,,1,0\<newline>''), (''b.csv'', ''2023-01-01,Cash,,2,0\<newline>'')] [1, 0]
   \<and> tmp (fst (generateAllReports env_utc [0, 1] \<lparr>accounts_ms = 12, yearly_ms = 7, fs_ms = 31\<rparr>
            \<lparr>states = idle, parsedFiles = [],
             tmp = [(''a.csv'', ''2023-01-01,Bank,,1,0\<newline>''), (''b.csv'', ''2023-01-01,Cash,,2,0\<newline>'')],
             out = []\<rparr>))
     = [(''a.csv'', ''2023-01-01,Bank,,1,0\<newline>''), (''b.csv'', ''2023-01-01,Cash,,2,0\<newline>'')]
   \<and> map_of (out (fst (generateAllReports env_utc [0, 1] \<lparr>accounts_ms = 12, yearly_ms = 7, fs_ms = 31\<rparr>
            \<lparr>states = idle, parsedFiles = [],
             tmp = [(''a.csv'', ''2023-01-01,Bank,,1,0\<newline>''), (''b.csv'', ''2023-01-01,Cash,,2,0\<newline>'')],
             out = []\<rparr>))) ''accounts.csv''
     = Some ''Account,Balance\<newline>Bank,1.00\<newline>Cash,2.00''
   \<and> map_of (out (fst (generateAllReports env_utc [1, 0] \<lparr>accounts_ms = 12, yearly_ms = 7, fs_ms = 31\<rparr>
         (fst (generateAllReports env_utc [0, 1] \<lparr>accounts_ms = 12, yearly_ms = 7, fs_ms = 31\<rparr>
            \<lparr>states = idle, parsedFiles = [],
             tmp = [(''a.csv'', ''2023-01-01,Bank,,1,0\<newline>''), (''b.csv'', ''2023-01-01,Cash,,2,0\<newline>'')],
             out = []\<rparr>))))) ''accounts.csv''
     = Some ''Account,Balance\<newline>Cash,2.00\<newline>Bank,1.00''"
proof -
  let ?dir = "[(''a.csv'', ''2023-01-01,Bank,,1,0\<newline>''), (''b.csv'', ''2023-01-01,Cash,,2,0\<newline>'')]"
  let ?w = "\<lparr>states = idle, parsedFiles = [], tmp = ?dir, out = []\<rparr>"
  let ?ms = "\<lparr>accounts_ms = 12, yearly_ms = 7, fs_ms = 31\<rparr>"
  have o: "completion_order ?dir [0, 1] \<and> completion_order ?dir [1, 0]"
    by code_simp
  have a: "accounts_text env_utc (loadFiles ?dir [0, 1])
      = Inr ''Account,Balance\<newline>Bank,1.00\<newline>Cash,2.00''"
    by code_simp
  have b: "accounts_text env_utc (loadFiles ?dir [1, 0])
      = Inr ''Account,Balance\<newline>Cash,2.00\<newline>Bank,1.00''"
    by code_simp
  have f: "tmp (fst (generateAllReports env_utc [0, 1] ?ms ?w)) = ?dir"
    by (simp add: run_frame)
  have t: "tmp ?w = ?dir"
    by simp
  have first: "map_of (out (fst (generateAllReports env_utc [0, 1] ?ms ?w))) ''accounts.csv''
      = Some ''Account,Balance\<newline>Bank,1.00\<newline>Cash,2.00''"
    using run_writes [of env_utc "[0, 1]" ?ms ?w, THEN conjunct1] unfolding t a by simp
  have second: "map_of (out (fst (generateAllReports env_utc [1, 0] ?ms
        (fst (generateAllReports env_utc [0, 1] ?ms ?w))))) ''accounts.csv''
      = Some ''Account,Balance\<newline>Cash,2.00\<newline>Bank,1.00''"
    using run_writes [of env_utc "[1, 0]" ?ms "fst (generateAllReports env_utc [0, 1] ?ms ?w)",
        THEN conjunct1]
    unfolding f b by simp
  show ?thesis
    using o f first second by (intro conjI) simp_all
qed

section \<open>The loader and the jobs\<close>

lemma loadFiles_snoc:
  "i < length (eligible dir) \<Longrightarrow>
   loadFiles dir (done @ [i])
     = AList.update (fst (eligible dir ! i)) (parse_lines (snd (eligible dir ! i)))
         (loadFiles dir done)"
  by (simp add: loadFiles_def)

lemma completion_orderI:
  assumes "distinct order" and "set order = {0..<length (eligible dir)}"
  shows "completion_order dir order"
  unfolding completion_order_def
  by (rule sorted_distinct_set_unique) (use assms in simp_all)

lemma completion_order_set:
  assumes "completion_order dir order"
  shows "set order = {0..<length (eligible dir)}"
proof -
  have "set order = set (sort order)" by simp
  also have "\<dots> = {0..<length (eligible dir)}"
    using assms unfolding completion_order_def by simp
  finally show ?thesis .
qed

lemma loadFiles_lookup:
  assumes names: "distinct (map fst (eligible dir))"
    and bound: "set order \<subseteq> {0..<length (eligible dir)}"
  shows "map_of (loadFiles dir order) name
     = (if name \<in> (\<lambda>i. fst (eligible dir ! i)) ` set order
        then map_option parse_lines (map_of (eligible dir) name) else None)"
  using bound
proof (induction order rule: rev_induct)
  case Nil
  then show ?case by (simp add: loadFiles_def)
next
  case (snoc i order)
  then have lt: "i < length (eligible dir)" and b: "set order \<subseteq> {0..<length (eligible dir)}"
    by auto
  have "(fst (eligible dir ! i), snd (eligible dir ! i)) \<in> set (eligible dir)"
    using lt by simp
  then have here: "map_of (eligible dir) (fst (eligible dir ! i)) = Some (snd (eligible dir ! i))"
    using names by (simp only: map_of_eq_Some_iff)
  show ?case
    using snoc.IH [OF b] here
    by (auto simp add: loadFiles_snoc [OF lt] update_conv')
qed

lemma loadFiles_complete:
  assumes names: "distinct (map fst (eligible dir))" and order: "completion_order dir order"
  shows "map_of (loadFiles dir order) name = map_option parse_lines (map_of (eligible dir) name)"
proof -
  have s: "set order = {0..<length (eligible dir)}" by (rule completion_order_set [OF order])
  have "set (eligible dir) = set (map (\<lambda>i. eligible dir ! i) [0..<length (eligible dir)])"
    by (simp only: map_nth)
  then have "set (eligible dir) = (\<lambda>i. eligible dir ! i) ` {0..<length (eligible dir)}"
    by simp
  then have img: "(\<lambda>i. fst (eligible dir ! i)) ` set order = fst ` set (eligible dir)"
    unfolding s by (simp add: image_image)
  have "name \<notin> fst ` set (eligible dir) \<Longrightarrow> map_of (eligible dir) name = None"
    by (simp add: map_of_eq_None_iff)
  then show ?thesis
    using loadFiles_lookup [OF names, of order name] s img by auto
qed

text \<open>
  A file stored twice is stored where it was, with the rows it had: the cache is the
  one that storing each file once, at its first time, gives.
\<close>

lemma loadFiles_stored_again:
  assumes names: "distinct (map fst (eligible dir))"
    and bound: "set stored \<subseteq> {0..<length (eligible dir)}" and i: "i \<in> set stored"
  shows "loadFiles dir (stored @ [i]) = loadFiles dir stored"
proof -
  from bound i have lt: "i < length (eligible dir)" by auto
  have "(fst (eligible dir ! i), snd (eligible dir ! i)) \<in> set (eligible dir)"
    using lt by simp
  then have here: "map_of (eligible dir) (fst (eligible dir ! i)) = Some (snd (eligible dir ! i))"
    using names by (simp only: map_of_eq_Some_iff)
  have "map_of (loadFiles dir stored) (fst (eligible dir ! i))
      = Some (parse_lines (snd (eligible dir ! i)))"
    using loadFiles_lookup [OF names bound, of "fst (eligible dir ! i)"] i here by auto
  then show ?thesis
    unfolding loadFiles_snoc [OF lt] by (rule update_triv)
qed

lemma loadFiles_once:
  assumes names: "distinct (map fst (eligible dir))"
  shows "set stored \<subseteq> {0..<length (eligible dir)} \<Longrightarrow>
    \<exists>order. distinct order \<and> set order = set stored \<and> loadFiles dir order = loadFiles dir stored"
proof (induction stored rule: rev_induct)
  case Nil
  then show ?case by simp
next
  case (snoc i stored)
  then have b: "set stored \<subseteq> {0..<length (eligible dir)}" and lt: "i < length (eligible dir)"
    by auto
  from snoc.IH [OF b] obtain order where o: "distinct order" "set order = set stored"
    "loadFiles dir order = loadFiles dir stored"
    by blast
  show ?case
  proof (cases "i \<in> set stored")
    case True
    then have "loadFiles dir (stored @ [i]) = loadFiles dir stored"
      by (rule loadFiles_stored_again [OF names b])
    with o True show ?thesis
      by (intro exI [of _ order]) auto
  next
    case False
    have "loadFiles dir (order @ [i]) = loadFiles dir (stored @ [i])"
      unfolding loadFiles_snoc [OF lt] o(3) ..
    with o False show ?thesis
      by (intro exI [of _ "order @ [i]"]) auto
  qed
qed

lemma complete_if_all_stored:
  assumes names: "distinct (map fst (eligible dir))"
    and "set stored = {0..<length (eligible dir)}"
  shows "complete dir (loadFiles dir stored)"
proof -
  from loadFiles_once [OF names, of stored] assms(2)
  obtain order where o: "distinct order" "set order = set stored"
    "loadFiles dir order = loadFiles dir stored"
    by auto
  have "completion_order dir order"
    using o(1) o(2) assms(2) by (intro completion_orderI) simp_all
  then show ?thesis
    unfolding complete_def using o(3) by (intro exI [of _ order]) simp
qed

lemma initial_well_formed: "well_formed dir (initial c)"
  by (simp add: well_formed_def initial_def)

lemma step_well_formed:
  assumes wf: "well_formed dir s" and st: "step dir s ev = Some s'"
  shows "well_formed dir s'"
proof (cases ev)
  case (Start q)
  with st have idle: "phase_of s q = Idle"
    and s': "s' = s\<lparr>cached := [], phase_of := (phase_of s)(q := Listing)\<rparr>"
    by (auto split: if_splits)
  show ?thesis
    using wf idle unfolding well_formed_def s' by auto
next
  case (Listed q)
  with st have ph: "phase_of s q = Listing" by (auto split: if_splits)
  show ?thesis
  proof (cases "eligible dir = []")
    case True
    with st Listed ph
    have s': "s' = s\<lparr>phase_of := (phase_of s)(q := Reporting),
                     observed := observed s @ [(q, cached s)]\<rparr>"
      by simp
    show ?thesis
      using wf ph unfolding well_formed_def s' by auto
  next
    case False
    with st Listed ph
    have s': "s' = s\<lparr>phase_of := (phase_of s)(q := Reading [0..<length (eligible dir)])\<rparr>"
      by simp
    show ?thesis
      using wf ph unfolding well_formed_def s' by auto
  qed
next
  case (ReadDone q i)
  with st obtain pending where ph: "phase_of s q = Reading pending"
    by (auto split: phase.splits)
  from st ReadDone ph have i: "i \<in> set pending" by (auto split: if_splits)
  from wf ph have sub: "set pending \<subseteq> {0..<length (eligible dir)}"
    unfolding well_formed_def by blast
  let ?c = "AList.update (fst (eligible dir ! i)) (parse_lines (snd (eligible dir ! i))) (cached s)"
  show ?thesis
  proof (cases "removeAll i pending = []")
    case True
    with st ReadDone ph i
    have s': "s' = s\<lparr>cached := ?c, phase_of := (phase_of s)(q := Reporting),
                     observed := observed s @ [(q, ?c)]\<rparr>"
      by (simp add: Let_def)
    show ?thesis
      using wf ph unfolding well_formed_def s' by auto
  next
    case False
    with st ReadDone ph i
    have s': "s' = s\<lparr>cached := ?c, phase_of := (phase_of s)(q := Reading (removeAll i pending))\<rparr>"
      by (simp add: Let_def)
    show ?thesis
      using wf ph sub unfolding well_formed_def s' by auto
  qed
qed

lemma exec_append:
  "exec dir s (xs @ ys) = (case exec dir s xs of None \<Rightarrow> None | Some s' \<Rightarrow> exec dir s' ys)"
  by (induction xs arbitrary: s) (simp_all split: option.splits)

lemma exec_well_formed:
  "well_formed dir s \<Longrightarrow> exec dir s trace = Some s' \<Longrightarrow> well_formed dir s'"
proof (induction trace arbitrary: s)
  case Nil
  then show ?case by simp
next
  case (Cons ev evs)
  from Cons.prems(2) obtain t where t: "step dir s ev = Some t" and rest: "exec dir t evs = Some s'"
    by (auto split: option.splits)
  from Cons.prems(1) t have "well_formed dir t" by (rule step_well_formed)
  then show ?case using rest by (rule Cons.IH)
qed

lemma start_loading:
  assumes wf: "well_formed dir s" and st: "step dir s (Start r) = Some s'"
  shows "loading dir r s'"
proof -
  from st have idle: "phase_of s r = Idle"
    and s': "s' = s\<lparr>cached := [], phase_of := (phase_of s)(r := Listing)\<rparr>"
    by (auto split: if_splits)
  have none: "(r, c) \<notin> set (observed s)" for c
    using wf idle unfolding well_formed_def by auto
  have "set [] \<subseteq> {0..<length (eligible dir)} \<and> [] = loadFiles dir []"
    by (simp add: loadFiles_def)
  then show ?thesis
    unfolding loading_def s' using none by (auto intro!: exI [of _ "[]"])
qed

lemma step_loading:
  assumes names: "distinct (map fst (eligible dir))"
    and wf: "well_formed dir s" and inv: "loading dir r s"
    and ev: "\<not> is_start ev" and st: "step dir s ev = Some s'"
  shows "loading dir r s'"
proof -
  from inv obtain stored where bound: "set stored \<subseteq> {0..<length (eligible dir)}"
    and c: "cached s = loadFiles dir stored"
    and ph: "case phase_of s r of
              Idle \<Rightarrow> False
            | Listing \<Rightarrow> True
            | Reading pending \<Rightarrow>
                pending \<noteq> [] \<and> {0..<length (eligible dir)} \<subseteq> set stored \<union> set pending
            | Reporting \<Rightarrow> True"
    and seen: "\<forall>c. (r, c) \<in> set (observed s) \<longrightarrow> complete dir c"
    unfolding loading_def by blast
  show ?thesis
  proof (cases ev)
    case (Start q)
    with ev show ?thesis by simp
  next
    case (Listed q)
    with st have phq: "phase_of s q = Listing" by (auto split: if_splits)
    show ?thesis
    proof (cases "eligible dir = []")
      case True
      with st Listed phq
      have s': "s' = s\<lparr>phase_of := (phase_of s)(q := Reporting),
                       observed := observed s @ [(q, cached s)]\<rparr>"
        by simp
      from True bound have "stored = []" by simp
      then have "cached s = loadFiles dir []" using c by simp
      moreover have "completion_order dir []"
        by (simp add: completion_order_def True)
      ultimately have now: "complete dir (cached s)"
        unfolding complete_def by blast
      have "set stored \<subseteq> {0..<length (eligible dir)} \<and> cached s' = loadFiles dir stored
          \<and> (case phase_of s' r of
                Idle \<Rightarrow> False
              | Listing \<Rightarrow> True
              | Reading pending \<Rightarrow>
                  pending \<noteq> [] \<and> {0..<length (eligible dir)} \<subseteq> set stored \<union> set pending
              | Reporting \<Rightarrow> True)"
        using bound c ph unfolding s' by (cases "q = r") auto
      moreover have "\<forall>c. (r, c) \<in> set (observed s') \<longrightarrow> complete dir c"
        using seen now unfolding s' by auto
      ultimately show ?thesis
        unfolding loading_def by blast
    next
      case False
      with st Listed phq
      have s': "s' = s\<lparr>phase_of := (phase_of s)(q := Reading [0..<length (eligible dir)])\<rparr>"
        by simp
      have "set stored \<subseteq> {0..<length (eligible dir)} \<and> cached s' = loadFiles dir stored
          \<and> (case phase_of s' r of
                Idle \<Rightarrow> False
              | Listing \<Rightarrow> True
              | Reading pending \<Rightarrow>
                  pending \<noteq> [] \<and> {0..<length (eligible dir)} \<subseteq> set stored \<union> set pending
              | Reporting \<Rightarrow> True)"
        using bound c ph False unfolding s' by (cases "q = r") auto
      moreover have "\<forall>c. (r, c) \<in> set (observed s') \<longrightarrow> complete dir c"
        using seen unfolding s' by auto
      ultimately show ?thesis
        unfolding loading_def by blast
    qed
  next
    case (ReadDone q i)
    with st obtain pending where phq: "phase_of s q = Reading pending"
      by (auto split: phase.splits)
    from st ReadDone phq have i: "i \<in> set pending" by (auto split: if_splits)
    from wf phq have sub: "set pending \<subseteq> {0..<length (eligible dir)}"
      unfolding well_formed_def by blast
    with i have lt: "i < length (eligible dir)" by auto
    let ?c = "AList.update (fst (eligible dir ! i)) (parse_lines (snd (eligible dir ! i))) (cached s)"
    have c': "?c = loadFiles dir (stored @ [i])"
      by (simp add: loadFiles_snoc [OF lt] c)
    have bound': "set (stored @ [i]) \<subseteq> {0..<length (eligible dir)}"
      using bound lt by simp
    show ?thesis
    proof (cases "removeAll i pending = []")
      case True
      with st ReadDone phq i
      have s': "s' = s\<lparr>cached := ?c, phase_of := (phase_of s)(q := Reporting),
                       observed := observed s @ [(q, ?c)]\<rparr>"
        by (simp add: Let_def)
      from True have "set pending - {i} = {}" by (metis set_removeAll set_empty)
      with i have only: "set pending = {i}" by auto
      have now: "complete dir ?c" if "q = r"
      proof -
        from ph phq that only have "{0..<length (eligible dir)} \<subseteq> set (stored @ [i])"
          by auto
        with bound' have "set (stored @ [i]) = {0..<length (eligible dir)}" by auto
        then show ?thesis
          unfolding c' by (rule complete_if_all_stored [OF names])
      qed
      have "set (stored @ [i]) \<subseteq> {0..<length (eligible dir)}
          \<and> cached s' = loadFiles dir (stored @ [i])
          \<and> (case phase_of s' r of
                Idle \<Rightarrow> False
              | Listing \<Rightarrow> True
              | Reading pending \<Rightarrow>
                  pending \<noteq> [] \<and> {0..<length (eligible dir)} \<subseteq> set (stored @ [i]) \<union> set pending
              | Reporting \<Rightarrow> True)"
        using bound' c' ph unfolding s' by (cases "q = r") (auto split: phase.splits)
      moreover have "\<forall>c. (r, c) \<in> set (observed s') \<longrightarrow> complete dir c"
        using seen now unfolding s' by auto
      ultimately show ?thesis
        unfolding loading_def by blast
    next
      case False
      with st ReadDone phq i
      have s': "s' = s\<lparr>cached := ?c, phase_of := (phase_of s)(q := Reading (removeAll i pending))\<rparr>"
        by (simp add: Let_def)
      have "set (stored @ [i]) \<subseteq> {0..<length (eligible dir)}
          \<and> cached s' = loadFiles dir (stored @ [i])
          \<and> (case phase_of s' r of
                Idle \<Rightarrow> False
              | Listing \<Rightarrow> True
              | Reading pending \<Rightarrow>
                  pending \<noteq> [] \<and> {0..<length (eligible dir)} \<subseteq> set (stored @ [i]) \<union> set pending
              | Reporting \<Rightarrow> True)"
        using bound' c' ph phq False unfolding s' by (cases "q = r") (auto split: phase.splits)
      moreover have "\<forall>c. (r, c) \<in> set (observed s') \<longrightarrow> complete dir c"
        using seen unfolding s' by auto
      ultimately show ?thesis
        unfolding loading_def by blast
    qed
  qed
qed

lemma exec_loading:
  assumes names: "distinct (map fst (eligible dir))"
  shows "well_formed dir s \<Longrightarrow> loading dir r s \<Longrightarrow> list_all (\<lambda>ev. \<not> is_start ev) trace
    \<Longrightarrow> exec dir s trace = Some s' \<Longrightarrow> loading dir r s'"
proof (induction trace arbitrary: s)
  case Nil
  then show ?case by simp
next
  case (Cons ev evs)
  from Cons.prems(4) obtain t where t: "step dir s ev = Some t" and rest: "exec dir t evs = Some s'"
    by (auto split: option.splits)
  from Cons.prems(3) have ev: "\<not> is_start ev" and evs: "list_all (\<lambda>ev. \<not> is_start ev) evs"
    by simp_all
  have "well_formed dir t"
    using Cons.prems(1) t by (rule step_well_formed)
  moreover have "loading dir r t"
    using names Cons.prems(1,2) ev t by (rule step_loading)
  ultimately show ?case
    using evs rest by (rule Cons.IH)
qed

text \<open>
  Claim C6, as the code has it. Take a run \<open>r\<close> of \<open>generateAllReports\<close>, on a service
  that handled the events \<open>before\<close> (of any runs, from any cache), and let no run
  start among the events \<open>during\<close> that follow the call of \<open>r\<close>; runs that started
  earlier may go on. If the jobs of \<open>r\<close> have begun by the end of \<open>during\<close>, the cache
  that they read is the cache of a completed load, \<open>loadFiles dir order\<close> for an order
  in which the reads of all the eligible files complete once: it holds, for every
  eligible file, the rows of that file, and nothing else. (The names of the entries
  of a directory are distinct.)
\<close>

theorem loader_completes_before_jobs:
  assumes "distinct (map fst dir)"
    and "map_option observed (exec dir (initial c0) (before @ Start r # during)) = Some obs"
    and "list_all (\<lambda>ev. \<not> is_start ev) during"
    and "(r, seen) \<in> set obs"
  shows "(\<exists>order. completion_order dir order \<and> seen = loadFiles dir order)
       \<and> (\<forall>name. map_of seen name = map_option parse_lines (map_of (eligible dir) name))"
proof -
  have names: "distinct (map fst (eligible dir))"
    unfolding eligible_def using assms(1) by (rule distinct_map_filter)
  from assms(2) obtain s where s: "exec dir (initial c0) (before @ Start r # during) = Some s"
    and obs: "obs = observed s"
    by auto
  from s obtain s1 where s1: "exec dir (initial c0) before = Some s1"
    and s1': "exec dir s1 (Start r # during) = Some s"
    unfolding exec_append by (auto split: option.splits)
  from s1' obtain s2 where s2: "step dir s1 (Start r) = Some s2"
    and s2': "exec dir s2 during = Some s"
    by (auto split: option.splits)
  have wf1: "well_formed dir s1"
    using initial_well_formed s1 by (rule exec_well_formed)
  have wf2: "well_formed dir s2"
    using wf1 s2 by (rule step_well_formed)
  have "loading dir r s2"
    using wf1 s2 by (rule start_loading)
  then have "loading dir r s"
    using wf2 assms(3) s2' by (intro exec_loading [OF names, of s2 r during s])
  with assms(4) obs have "complete dir seen"
    unfolding loading_def by blast
  then obtain order where o: "completion_order dir order" "seen = loadFiles dir order"
    unfolding complete_def by blast
  then show ?thesis
    using loadFiles_complete [OF names o(1)] by auto
qed

theorem loader_completes_before_jobs_witness:
  "distinct (map fst [(''a.csv'', ''2023-01-01,Bank,,1,0\<newline>''), (''notes.txt'', ''n''),
                      (''b.csv'', ''2023-01-01,Cash,,2,0\<newline>'')])
   \<and> map_option observed
     (exec [(''a.csv'', ''2023-01-01,Bank,,1,0\<newline>''), (''notes.txt'', ''n''),
            (''b.csv'', ''2023-01-01,Cash,,2,0\<newline>'')]
        (initial [(''old.csv'', [])])
        ([Start 1, Listed 1] @ Start 2 # [Listed 2, ReadDone 1 0, ReadDone 2 1, ReadDone 2 0]))
     = Some [(2, [(''a.csv'', [[''2023-01-01'', ''Bank'', '''', ''1'', ''0'']]),
                  (''b.csv'', [[''2023-01-01'', ''Cash'', '''', ''2'', ''0'']])])]
   \<and> list_all (\<lambda>ev. \<not> is_start ev) [Listed 2, ReadDone 1 0, ReadDone 2 1, ReadDone 2 0]
   \<and> (\<exists>order. completion_order [(''a.csv'', ''2023-01-01,Bank,,1,0\<newline>''), (''notes.txt'', ''n''),
                                   (''b.csv'', ''2023-01-01,Cash,,2,0\<newline>'')] order
         \<and> [(''a.csv'', [[''2023-01-01'', ''Bank'', '''', ''1'', ''0'']]),
            (''b.csv'', [[''2023-01-01'', ''Cash'', '''', ''2'', ''0'']])]
           = loadFiles [(''a.csv'', ''2023-01-01,Bank,,1,0\<newline>''), (''notes.txt'', ''n''),
                        (''b.csv'', ''2023-01-01,Cash,,2,0\<newline>'')] order)
   \<and> map_of [(''a.csv'', [[''2023-01-01'', ''Bank'', '''', ''1'', ''0'']]),
              (''b.csv'', [[''2023-01-01'', ''Cash'', '''', ''2'', ''0'']])] ''b.csv''
       = Some [[''2023-01-01'', ''Cash'', '''', ''2'', ''0'']]
   \<and> map_of [(''a.csv'', [[''2023-01-01'', ''Bank'', '''', ''1'', ''0'']]),
              (''b.csv'', [[''2023-01-01'', ''Cash'', '''', ''2'', ''0'']])] ''old.csv''
       = None"
proof -
  let ?dir = "[(''a.csv'', ''2023-01-01,Bank,,1,0\<newline>''), (''notes.txt'', ''n''),
               (''b.csv'', ''2023-01-01,Cash,,2,0\<newline>'')]"
  let ?seen = "[(''a.csv'', [[''2023-01-01'', ''Bank'', '''', ''1'', ''0'']]),
                (''b.csv'', [[''2023-01-01'', ''Cash'', '''', ''2'', ''0'']])]"
  let ?during = "[Listed 2, ReadDone 1 0, ReadDone 2 1, ReadDone 2 0]"
  have names: "distinct (map fst ?dir)"
    by simp
  have run: "map_option observed
      (exec ?dir (initial [(''old.csv'', [])]) ([Start 1, Listed 1] @ Start 2 # ?during))
      = Some [(2, ?seen)]"
    by code_simp
  have quiet: "list_all (\<lambda>ev. \<not> is_start ev) ?during"
    by simp
  have mem: "(2, ?seen) \<in> set [(2, ?seen)]"
    by simp
  have b: "map_option parse_lines (map_of (eligible ?dir) ''b.csv'')
      = Some [[''2023-01-01'', ''Cash'', '''', ''2'', ''0'']]"
    by code_simp
  have old: "map_option parse_lines (map_of (eligible ?dir) ''old.csv'') = None"
    by code_simp
  note t = loader_completes_before_jobs [OF names run quiet mem]
  have whole: "\<exists>order. completion_order ?dir order \<and> ?seen = loadFiles ?dir order"
    using t by (rule conjunct1)
  have p1: "map_of ?seen ''b.csv'' = Some [[''2023-01-01'', ''Cash'', '''', ''2'', ''0'']]"
    using t [THEN conjunct2, THEN spec, of "''b.csv''"] unfolding b .
  have p2: "map_of ?seen ''old.csv'' = None"
    using t [THEN conjunct2, THEN spec, of "''old.csv''"] unfolding old .
  show ?thesis
    using names run quiet whole p1 p2 by (intro conjI)
qed

text \<open>
  The claim as the specification states it, of every run, fails. The service keeps
  one \<open>parsedFiles\<close>, and nothing keeps a second run from starting while the reads of
  the first are pending.
  Below, run 1 has stored the rows of \<open>a.csv\<close> when run 2 starts and empties the cache;
  the read of \<open>b.csv\<close> for run 1 then completes, it was the last of run 1, and the jobs
  of run 1 begin on a cache that holds \<open>b.csv\<close> alone: its Account Balances report has
  no row for \<open>Bank\<close>.
\<close>

theorem overlapping_run_reads_partial_cache:
  "map_option observed
     (exec [(''a.csv'', ''2023-01-01,Bank,,1,0\<newline>''), (''notes.txt'', ''n''),
            (''b.csv'', ''2023-01-01,Cash,,2,0\<newline>'')]
        (initial []) [Start 1, Listed 1, ReadDone 1 0, Start 2, ReadDone 1 1])
     = Some [(1, [(''b.csv'', [[''2023-01-01'', ''Cash'', '''', ''2'', ''0'']])])]
   \<and> accounts_text env_utc [(''b.csv'', [[''2023-01-01'', ''Cash'', '''', ''2'', ''0'']])]
     = Inr ''Account,Balance\<newline>Cash,2.00''"
  by code_simp

end
